theory Spec2Isabelle
  imports Main "HOL-Library.AList" "HOL-Library.Char_ord" "HOL-Library.List_Lexorder"
begin

section \<open>Project creator: text, exceptions and the database\<close>

text \<open>
  The development follows \<^verbatim>\<open>project_creator/project_creator.py\<close>.
  Python strings are lists of characters. A formatted string (an f-string) is kept as the
  list of its parts: literal text, a value formatted by \<^verbatim>\<open>{x}\<close>, and a value
  formatted by \<^verbatim>\<open>{x!r}\<close>; the builtins \<^verbatim>\<open>str\<close> and \<^verbatim>\<open>repr\<close> that
  turn the parts into one string are not part of the program. A multi-line text is the
  list of its lines.
\<close>

subsection \<open>JSON values\<close>

text \<open>What \<^verbatim>\<open>json.loads\<close> returns: \<^verbatim>\<open>None\<close>, a bool, a number, a str, a list
  or a dict (its items, in insertion order).\<close>

datatype json =
    JNull
  | JBool bool
  | JNum int
  | JStr string
  | JArr "json list"
  | JObj "(string \<times> json) list"

subsection \<open>Exceptions\<close>

text \<open>The classes of \<^verbatim>\<open>ProjectCreatorError\<close> and the builtin exceptions the code
  meets. \<open>GenericProjectCreatorError\<close> is the base class raised as such.\<close>

datatype exn_class =
    InvalidProjectNameError
  | InvalidConfigError
  | DuplicateProjectNameError
  | DuplicateProjectIdError
  | ProjectOpenError
  | FilesystemError
  | DatabaseSchemaMismatchError
  | GenericProjectCreatorError
  | OSError
  | FileNotFoundError
  | FileExistsError
  | NotADirectoryError
  | IsADirectoryError
  | SqliteError
  | JSONDecodeError
  | AttributeError
  | TypeError
  | KeyError
  | ValueError

subsection \<open>Formatted text\<close>

datatype piece =
    Lit string               \<comment> \<open>literal text of the format string\<close>
  | Str string               \<comment> \<open>\<^verbatim>\<open>{s}\<close> for a str \<open>s\<close>\<close>
  | Repr string              \<comment> \<open>\<^verbatim>\<open>{s!r}\<close> for a str \<open>s\<close>\<close>
  | StrList "string list"    \<comment> \<open>\<^verbatim>\<open>{xs}\<close> for a list of str\<close>
  | ReprJson "json option"   \<comment> \<open>\<^verbatim>\<open>{m.get(k)!r}\<close>; \<open>None\<close> is Python's \<^verbatim>\<open>None\<close>\<close>
  | LibText string           \<comment> \<open>text produced by a library routine, named by its origin\<close>
  | ClsName exn_class        \<comment> \<open>\<^verbatim>\<open>{type(e).__name__}\<close>\<close>
  | PathStr "string list"    \<comment> \<open>\<^verbatim>\<open>{p}\<close> for a path \<open>p\<close>, given by its components below the base directory\<close>

type_synonym fstring = "piece list"
type_synonym pytext = "fstring list"


datatype exn =
  Exn (cls: exn_class) (message: fstring) (diagnostic: pytext) (cause: "exn option")

definition is_ProjectCreatorError :: "exn \<Rightarrow> bool" where
  "is_ProjectCreatorError e \<longleftrightarrow>
     cls e \<in> {InvalidProjectNameError, InvalidConfigError, DuplicateProjectNameError,
              DuplicateProjectIdError, ProjectOpenError, FilesystemError,
              DatabaseSchemaMismatchError, GenericProjectCreatorError}"

text \<open>\<^verbatim>\<open>DatabaseSchemaMismatchError(message, diff)\<close>: the diff is the diagnostic.\<close>

definition schema_mismatch :: "fstring \<Rightarrow> pytext \<Rightarrow> exn" where
  "schema_mismatch msg diff = Exn DatabaseSchemaMismatchError msg diff None"

subsection \<open>The database\<close>

text \<open>
  A SQLite database is modelled by what the program's statements read from it and write
  to it:
  \<^item> \<open>tables\<close>: the rows of \<^verbatim>\<open>sqlite_master\<close> of type \<^verbatim>\<open>table\<close>, by name, each with
    the column names that \<^verbatim>\<open>PRAGMA table_info\<close> lists for that table, in declaration
    order;
  \<^item> \<open>meta\<close>: the rows of the marker table \<^verbatim>\<open>schema_meta(key, value)\<close>, oldest first;
  \<^item> \<open>marker_rule\<close>: what the declaration of the marker table makes of a new row of two
    texts. The canonical DDL declares \<^verbatim>\<open>key TEXT PRIMARY KEY\<close>, which is \<open>KeyUnique\<close>;
    the schema text is an argument of the program, so other declarations are possible.
  A statement on \<^verbatim>\<open>schema_meta\<close> raises \<^verbatim>\<open>sqlite3.OperationalError\<close> when the table
  or one of its two columns does not exist.
\<close>

datatype marker_rule =
    KeyUnique       \<comment> \<open>\<open>key\<close> is the primary key or unique: a row whose key is present conflicts\<close>
  | Unconstrained   \<comment> \<open>no constraint bears on a row \<open>(key, value)\<close>\<close>
  | Refusing        \<comment> \<open>every row \<open>(key, value)\<close> violates a constraint, such as a further
                        \<^verbatim>\<open>NOT NULL\<close> column without default\<close>

record db =
  tables :: "(string \<times> string list) list"
  marker_rule :: marker_rule
  meta :: "(string \<times> string) list"

definition empty_db :: db where
  "empty_db = \<lparr>tables = [], marker_rule = KeyUnique, meta = []\<rparr>"

definition has_meta_table :: "db \<Rightarrow> bool" where
  "has_meta_table d \<longleftrightarrow>
     (case map_of (tables d) ''schema_meta'' of
        None \<Rightarrow> False
      | Some cols \<Rightarrow> ''key'' \<in> set cols \<and> ''value'' \<in> set cols)"

definition no_meta_table_error :: exn where
  "no_meta_table_error =
     Exn SqliteError [LibText ''sqlite3.OperationalError: schema_meta''] [] None"

text \<open>\<^verbatim>\<open>INSERT OR IGNORE INTO schema_meta(key,value) VALUES (?,?)\<close>: the row is added
  unless it violates a constraint of the table, and then it is skipped without an error.\<close>

definition insert_or_ignore ::
  "marker_rule \<Rightarrow> string \<Rightarrow> string \<Rightarrow> (string \<times> string) list \<Rightarrow> (string \<times> string) list" where
  "insert_or_ignore rule k v rows =
     (case rule of
        KeyUnique \<Rightarrow> if map_of rows k = None then rows @ [(k, v)] else rows
      | Unconstrained \<Rightarrow> rows @ [(k, v)]
      | Refusing \<Rightarrow> rows)"

text \<open>\<^verbatim>\<open>SELECT value FROM schema_meta WHERE key=k\<close> followed by \<^verbatim>\<open>fetchone()\<close>: the
  oldest row with that key.\<close>

definition select_value :: "db \<Rightarrow> string \<Rightarrow> string option" where
  "select_value d k = map_of (meta d) k"

subsection \<open>Schema guard\<close>

definition upsert_schema_meta :: "string \<Rightarrow> string \<Rightarrow> db \<Rightarrow> exn + db" where
  "upsert_schema_meta schema_version schema_hash d =
     (if \<not> has_meta_table d then Inl no_meta_table_error
      else Inr (d\<lparr>meta :=
             insert_or_ignore (marker_rule d) ''schema_hash'' schema_hash
               (insert_or_ignore (marker_rule d) ''schema_version'' schema_version (meta d))\<rparr>))"

definition verify_schema_meta :: "string \<Rightarrow> string \<Rightarrow> db \<Rightarrow> exn + unit" where
  "verify_schema_meta expected_version expected_hash d =
     (if \<not> has_meta_table d then Inl no_meta_table_error
      else
        let row_v = select_value d ''schema_version'';
            row_h = select_value d ''schema_hash''
        in case row_v of
             None \<Rightarrow> Inl (schema_mismatch [Lit ''schema_meta missing schema_version.'']
                            [[Lit ''schema_meta.schema_version missing'']])
           | Some v \<Rightarrow>
               if v \<noteq> expected_version then
                 Inl (schema_mismatch [Lit ''Unsupported schema_version in library.db.'']
                        [[Lit ''expected schema_version='', Repr expected_version,
                          Lit '' got '', Repr v]])
               else (case row_h of
                 None \<Rightarrow> Inl (schema_mismatch [Lit ''schema_meta missing schema_hash.'']
                                [[Lit ''schema_meta.schema_hash missing'']])
               | Some h \<Rightarrow>
                   if h \<noteq> expected_hash then
                     Inl (schema_mismatch [Lit ''schema_hash mismatch.'']
                            [[Lit ''expected schema_hash='', Str expected_hash,
                              Lit '' got '', Str h]])
                   else Inr ()))"

subsection \<open>Schema validation\<close>

record ExpectedTable =
  name :: string
  columns :: "string list"

type_synonym ExpectedSchema = "ExpectedTable list"

text \<open>A dict comprehension: a later item with a key already present replaces the value
  and keeps the key's position.\<close>

definition dict_of :: "('k \<times> 'v) list \<Rightarrow> ('k \<times> 'v) list" where
  "dict_of items = foldl (\<lambda>d (k, v). AList.update k v d) [] items"

definition sum_bind :: "exn + 'a \<Rightarrow> ('a \<Rightarrow> exn + 'b) \<Rightarrow> exn + 'b" where
  "sum_bind r k = (case r of Inl e \<Rightarrow> Inl e | Inr x \<Rightarrow> k x)"

text \<open>
  \<^verbatim>\<open>name NOT LIKE 'sqlite_%'\<close>: in a \<^verbatim>\<open>LIKE\<close> pattern \<^verbatim>\<open>_\<close> stands for any one
  character and \<^verbatim>\<open>%\<close> for any run of characters, and ASCII letters match without regard
  to case. So the pattern matches the names of at least seven characters whose first six
  are \<^verbatim>\<open>sqlite\<close> in any case.
\<close>

definition sql_lower_char :: "char \<Rightarrow> char" where
  "sql_lower_char c =
     (let n = (of_char c :: nat) in if 65 \<le> n \<and> n \<le> 90 then char_of (n + 32) else c)"

definition like_sqlite :: "string \<Rightarrow> bool" where
  "like_sqlite t \<longleftrightarrow> 7 \<le> length t \<and> map sql_lower_char (take 6 t) = ''sqlite''"

text \<open>
  \<^verbatim>\<open>cur.execute(f"PRAGMA table_info({t});")\<close> puts the table's name into the statement
  as it is, without quotes, so SQLite's parser reads it as SQL text:
  \<^item> a name made of ASCII letters, digits and underscores that does not start with a
    digit and is not a keyword is one identifier, the name of the table itself;
  \<^item> a word that the parser accepts nowhere as a name (\<open>reserved_words\<close>) is a syntax
    error, \<^verbatim>\<open>sqlite3.OperationalError\<close>;
  \<^item> for every other text (other keywords, quotes, spaces, operators, digits first)
    the outcome is the parameter \<open>other\<close>, given the text and the tables.
\<close>

definition sql_keywords :: "string list" where
  "sql_keywords =
     [''abort'', ''action'', ''add'', ''after'', ''all'', ''alter'', ''always'', ''analyze'',
      ''and'', ''as'', ''asc'', ''attach'', ''autoincrement'', ''before'', ''begin'',
      ''between'', ''by'', ''cascade'', ''case'', ''cast'', ''check'', ''collate'', ''column'',
      ''commit'', ''conflict'', ''constraint'', ''create'', ''cross'', ''current'',
      ''current_date'', ''current_time'', ''current_timestamp'', ''database'', ''default'',
      ''deferrable'', ''deferred'', ''delete'', ''desc'', ''detach'', ''distinct'', ''do'',
      ''drop'', ''each'', ''else'', ''end'', ''escape'', ''except'', ''exclude'', ''exclusive'',
      ''exists'', ''explain'', ''fail'', ''filter'', ''first'', ''following'', ''for'',
      ''foreign'', ''from'', ''full'', ''generated'', ''glob'', ''group'', ''groups'',
      ''having'', ''if'', ''ignore'', ''immediate'', ''in'', ''index'', ''indexed'',
      ''initially'', ''inner'', ''insert'', ''instead'', ''intersect'', ''into'', ''is'',
      ''isnull'', ''join'', ''key'', ''last'', ''left'', ''like'', ''limit'', ''match'',
      ''materialized'', ''natural'', ''no'', ''not'', ''nothing'', ''notnull'', ''null'',
      ''nulls'', ''of'', ''offset'', ''on'', ''or'', ''order'', ''others'', ''outer'', ''over'',
      ''partition'', ''plan'', ''pragma'', ''preceding'', ''primary'', ''query'', ''raise'',
      ''range'', ''recursive'', ''references'', ''regexp'', ''reindex'', ''release'',
      ''rename'', ''replace'', ''restrict'', ''returning'', ''right'', ''rollback'', ''row'',
      ''rows'', ''savepoint'', ''select'', ''set'', ''table'', ''temp'', ''temporary'', ''then'',
      ''ties'', ''to'', ''transaction'', ''trigger'', ''unbounded'', ''union'', ''unique'',
      ''update'', ''using'', ''vacuum'', ''values'', ''view'', ''virtual'', ''when'', ''where'',
      ''window'', ''with'', ''without'']"

definition reserved_words :: "string list" where
  "reserved_words =
     [''add'', ''all'', ''alter'', ''and'', ''as'', ''autoincrement'', ''between'', ''case'',
      ''check'', ''collate'', ''commit'', ''constraint'', ''create'', ''deferrable'',
      ''distinct'', ''drop'', ''else'', ''escape'', ''except'', ''exists'', ''foreign'',
      ''from'', ''group'', ''having'', ''in'', ''index'', ''insert'', ''intersect'', ''into'',
      ''is'', ''isnull'', ''join'', ''limit'', ''not'', ''notnull'', ''null'', ''or'', ''order'',
      ''primary'', ''references'', ''select'', ''set'', ''table'', ''then'', ''to'',
      ''transaction'', ''union'', ''unique'', ''update'', ''using'', ''values'', ''when'',
      ''where'']"

definition ident_start :: "char \<Rightarrow> bool" where
  "ident_start c \<longleftrightarrow>
     (let n = (of_char c :: nat) in (65 \<le> n \<and> n \<le> 90) \<or> (97 \<le> n \<and> n \<le> 122) \<or> n = 95)"

definition ident_char :: "char \<Rightarrow> bool" where
  "ident_char c \<longleftrightarrow> ident_start c \<or> (let n = (of_char c :: nat) in 48 \<le> n \<and> n \<le> 57)"

definition plain_name :: "string \<Rightarrow> bool" where
  "plain_name t \<longleftrightarrow>
     t \<noteq> [] \<and> ident_start (hd t) \<and> list_all ident_char t
     \<and> map sql_lower_char t \<notin> set sql_keywords"

definition syntax_error :: "string \<Rightarrow> exn" where
  "syntax_error t =
     Exn SqliteError [LibText ''sqlite3.OperationalError: syntax error near '', Str t] [] None"

definition table_columns :: "db \<Rightarrow> string \<Rightarrow> string list" where
  "table_columns d t = (case map_of (tables d) t of None \<Rightarrow> [] | Some cols \<Rightarrow> cols)"

definition table_info :: "(string \<Rightarrow> (string \<times> string list) list \<Rightarrow> exn + string list) \<Rightarrow> db \<Rightarrow> string \<Rightarrow> exn + string list" where
  "table_info other d t =
     (if plain_name t then Inr (table_columns d t)
      else if map sql_lower_char t \<in> set reserved_words then Inl (syntax_error t)
      else other t (tables d))"

text \<open>The loop of \<^verbatim>\<open>_introspect_schema\<close> over the selected names.\<close>

fun table_infos ::
  "(string \<Rightarrow> (string \<times> string list) list \<Rightarrow> exn + string list) \<Rightarrow> db \<Rightarrow> string list \<Rightarrow> exn + (string \<times> string list) list" where
  "table_infos other d [] = Inr []"
| "table_infos other d (t # ts) =
     sum_bind (table_info other d t) (\<lambda>cols.
       sum_bind (table_infos other d ts) (\<lambda>rest. Inr ((t, cols) # rest)))"

definition introspect_schema ::
  "(string \<Rightarrow> (string \<times> string list) list \<Rightarrow> exn + string list) \<Rightarrow> db \<Rightarrow> exn + (string \<times> string list) list" where
  "introspect_schema other d =
     (let names = sort (filter (\<lambda>t. \<not> like_sqlite t) (map fst (tables d)))
      in sum_bind (table_infos other d names) (\<lambda>items. Inr (dict_of items)))"

text \<open>The source returns \<^verbatim>\<open>"\n".join(lines).rstrip() + "\n"\<close>; the model returns
  \<open>lines\<close>, which determine that text.\<close>

definition format_schema_diff ::
  "string list \<Rightarrow> string list \<Rightarrow> (string \<times> string list \<times> string list) list \<Rightarrow> pytext" where
  "format_schema_diff missing_tables extra_tables column_diffs =
     [[Lit ''SCHEMA_MISMATCH''], []]
     @ (if missing_tables \<noteq> [] then
          [[Lit ''Missing tables:'']] @ map (\<lambda>t. [Lit ''  - '', Str t]) missing_tables @ [[]]
        else [])
     @ (if extra_tables \<noteq> [] then
          [[Lit ''Unexpected tables:'']] @ map (\<lambda>t. [Lit ''  - '', Str t]) extra_tables @ [[]]
        else [])
     @ (if column_diffs \<noteq> [] then
          [[Lit ''Column mismatches:'']]
          @ concat (map (\<lambda>(t, missing_cols, extra_cols).
                      [[Lit ''  - '', Str t, Lit '':''],
                       [Lit ''      missing: '', StrList missing_cols],
                       [Lit ''      unexpected: '', StrList extra_cols]]) column_diffs)
          @ [[]]
        else [])"

definition missing_tables_of :: "(string \<times> string list) list \<Rightarrow> (string \<times> string list) list \<Rightarrow> string list" where
  "missing_tables_of exp_tables actual =
     sort (remdups (filter (\<lambda>t. t \<notin> set (map fst actual)) (map fst exp_tables)))"

definition extra_tables_of :: "(string \<times> string list) list \<Rightarrow> (string \<times> string list) list \<Rightarrow> string list" where
  "extra_tables_of exp_tables actual =
     sort (remdups (filter (\<lambda>t. t \<notin> set (map fst exp_tables)) (map fst actual)))"

definition column_diffs_of ::
  "(string \<times> string list) list \<Rightarrow> (string \<times> string list) list \<Rightarrow> (string \<times> string list \<times> string list) list" where
  "column_diffs_of exp_tables actual =
     concat (map (\<lambda>(tname, exp_cols).
       case map_of actual tname of
         None \<Rightarrow> []
       | Some act_cols \<Rightarrow>
           let missing_cols = filter (\<lambda>c. c \<notin> set act_cols) exp_cols;
               extra_cols = filter (\<lambda>c. c \<notin> set exp_cols) act_cols
           in if missing_cols \<noteq> [] \<or> extra_cols \<noteq> [] then [(tname, missing_cols, extra_cols)]
              else []) exp_tables)"

definition validate_schema ::
  "(string \<Rightarrow> (string \<times> string list) list \<Rightarrow> exn + string list) \<Rightarrow> db \<Rightarrow> ExpectedSchema \<Rightarrow> exn + unit" where
  "validate_schema other d expected =
     sum_bind (introspect_schema other d) (\<lambda>actual.
       let exp_tables = dict_of (map (\<lambda>t. (name t, columns t)) expected);
           missing_tables = missing_tables_of exp_tables actual;
           extra_tables = extra_tables_of exp_tables actual;
           column_diffs = column_diffs_of exp_tables actual
       in if missing_tables \<noteq> [] \<or> extra_tables \<noteq> [] \<or> column_diffs \<noteq> [] then
            Inl (schema_mismatch [Lit ''Database schema mismatch.'']
                   (format_schema_diff missing_tables extra_tables column_diffs))
          else Inr ())"


section \<open>Configuration and its validation\<close>

text \<open>Characters are code points below 256. \<^verbatim>\<open>str.isspace\<close> holds there for the
  ASCII controls 9 to 13 and 28 to 31, the space, and the code points 133 and 160.\<close>

definition py_isspace :: "char \<Rightarrow> bool" where
  "py_isspace c \<longleftrightarrow> (of_char c :: nat) \<in> {9, 10, 11, 12, 13, 28, 29, 30, 31, 32, 133, 160}"

definition py_strip :: "string \<Rightarrow> string" where
  "py_strip s = rev (dropWhile py_isspace (rev (dropWhile py_isspace s)))"

text \<open>\<^verbatim>\<open>str.lower\<close> on code points below 256: A to Z and the upper-case letters
  192 to 222 (215, the multiplication sign, apart) move up by 32.\<close>

definition py_lower_char :: "char \<Rightarrow> char" where
  "py_lower_char c =
     (let n = (of_char c :: nat)
      in if (65 \<le> n \<and> n \<le> 90) \<or> (192 \<le> n \<and> n \<le> 222 \<and> n \<noteq> 215) then char_of (n + 32) else c)"

definition py_lower :: "string \<Rightarrow> string" where
  "py_lower s = map py_lower_char s"

fun py_join :: "string \<Rightarrow> string list \<Rightarrow> string" where
  "py_join sep [] = []"
| "py_join sep [x] = x"
| "py_join sep (x # y # ys) = x @ sep @ py_join sep (y # ys)"

text \<open>\<^verbatim>\<open>s.replace("\r\n", "\n")\<close>\<close>

fun py_replace_crlf :: "string \<Rightarrow> string" where
  "py_replace_crlf [] = []"
| "py_replace_crlf [c] = [c]"
| "py_replace_crlf (c # d # cs) =
     (if c = CHR 0x0D \<and> d = CHR 0x0A then CHR 0x0A # py_replace_crlf cs
      else c # py_replace_crlf (d # cs))"

text \<open>\<^verbatim>\<open>k in s\<close> for two strs: \<open>k\<close> occurs in \<open>s\<close> as a contiguous run.\<close>

definition py_in_str :: "string \<Rightarrow> string \<Rightarrow> bool" where
  "py_in_str k s \<longleftrightarrow> list_ex (\<lambda>i. take (length k) (drop i s) = k) [0 ..< Suc (length s)]"

record ProjectConfig =
  project_name :: string
  topic_prompt :: string
  citation_style :: string
  sources :: "string list"
  cfg_notes :: "string option"

definition ALLOWED_SOURCES :: "string list" where
  "ALLOWED_SOURCES = [''pmc'', ''biorxiv'']"

text \<open>
  \<^verbatim>\<open>_NAME_RE = re.compile(r"^[a-z0-9_]+$")\<close>, used with \<^verbatim>\<open>match\<close>. Without the
  MULTILINE flag \<^verbatim>\<open>$\<close> matches at the end of the string and also just before a
  newline that is the last character of the string; the character class cannot consume
  that newline. So the pattern matches a non-empty run of class characters, optionally
  followed by one final newline.
\<close>

definition name_char :: "char \<Rightarrow> bool" where
  "name_char c \<longleftrightarrow> c \<in> set ''abcdefghijklmnopqrstuvwxyz0123456789_''"

definition NAME_RE_match :: "string \<Rightarrow> bool" where
  "NAME_RE_match s \<longleftrightarrow>
     (let body = (if s \<noteq> [] \<and> last s = CHR 0x0A then butlast s else s)
      in body \<noteq> [] \<and> list_all name_char body)"

definition validate_config :: "ProjectConfig \<Rightarrow> exn + unit" where
  "validate_config cfg =
     (if project_name cfg = [] \<or> \<not> NAME_RE_match (project_name cfg) then
        Inl (Exn InvalidProjectNameError
               [Lit ''Invalid project_name. Use lowercase snake_case: a-z, 0-9, underscore.'']
               [[Lit ''project_name='', Repr (project_name cfg)]] None)
      else if project_name cfg \<noteq> py_lower (project_name cfg) then
        Inl (Exn InvalidProjectNameError [Lit ''project_name must be lowercase.'']
               [[Str (project_name cfg)]] None)
      else if py_strip (topic_prompt cfg) = [] then
        Inl (Exn InvalidConfigError [Lit ''topic_prompt must be non-empty.''] [] None)
      else if citation_style cfg \<noteq> ''vancouver'' then
        Inl (Exn InvalidConfigError [Lit ''citation_style must be 'vancouver' in v1.'']
               [[Str (citation_style cfg)]] None)
      else
        let bad = filter (\<lambda>s. s \<notin> set ALLOWED_SOURCES) (sources cfg)
        in if bad \<noteq> [] then
             Inl (Exn InvalidConfigError
                    [Lit ''Invalid sources in v1: '', StrList bad, Lit ''. Allowed: '',
                     StrList (sort ALLOWED_SOURCES)]
                    [[Lit ''sources='', Str (py_join '','' (sources cfg))]] None)
           else Inr ())"

section \<open>Manifest\<close>

definition manifest_dict :: "ProjectConfig \<Rightarrow> string \<Rightarrow> string \<Rightarrow> json" where
  "manifest_dict cfg project_id created_at =
     JObj ([(''project_id'', JStr project_id),
            (''project_name'', JStr (project_name cfg)),
            (''topic_prompt'', JStr (topic_prompt cfg)),
            (''created_at'', JStr created_at),
            (''sources'', JArr (map JStr (sources cfg))),
            (''citation_style'', JStr (citation_style cfg)),
            (''status'', JStr ''active''),
            (''version'', JStr ''v1'')]
           @ (case cfg_notes cfg of
                None \<Rightarrow> []
              | Some n \<Rightarrow> if n \<noteq> [] then [(''notes'', JStr n)] else []))"

text \<open>\<^verbatim>\<open>m.get(k)\<close>: only a dict has the method. A missing key and a JSON null both
  give Python's \<^verbatim>\<open>None\<close>.\<close>

definition json_get :: "json \<Rightarrow> string \<Rightarrow> exn + json option" where
  "json_get m k =
     (case m of
        JObj kvs \<Rightarrow> Inr (case map_of kvs k of Some JNull \<Rightarrow> None | r \<Rightarrow> r)
      | _ \<Rightarrow> Inl (Exn AttributeError [LibText ''object has no attribute 'get' ''] [] None))"

text \<open>\<^verbatim>\<open>m[k]\<close> on the dict \<open>m\<close>.\<close>

definition json_item :: "json \<Rightarrow> string \<Rightarrow> exn + json" where
  "json_item m k =
     (case m of
        JObj kvs \<Rightarrow> (case map_of kvs k of
                      None \<Rightarrow> Inl (Exn KeyError [Repr k] [] None)
                    | Some v \<Rightarrow> Inr v)
      | _ \<Rightarrow> Inl (Exn TypeError [LibText ''object is not subscriptable by str''] [] None))"

text \<open>\<^verbatim>\<open>k not in m\<close>: key membership in a dict, element membership in a list, substring
  in a str, \<^verbatim>\<open>TypeError\<close> otherwise.\<close>

definition json_not_in :: "string \<Rightarrow> json \<Rightarrow> exn + bool" where
  "json_not_in k m =
     (case m of
        JObj kvs \<Rightarrow> Inr (k \<notin> set (map fst kvs))
      | JArr xs \<Rightarrow> Inr (JStr k \<notin> set xs)
      | JStr s \<Rightarrow> Inr (\<not> py_in_str k s)
      | _ \<Rightarrow> Inl (Exn TypeError [LibText ''argument is not iterable''] [] None))"

definition required_fields :: "string list" where
  "required_fields = [''project_id'', ''project_name'', ''topic_prompt'', ''created_at'',
                      ''sources'', ''citation_style'', ''status'', ''version'']"

fun missing_fields :: "json \<Rightarrow> string list \<Rightarrow> exn + string list" where
  "missing_fields m [] = Inr []"
| "missing_fields m (k # ks) =
     (case json_not_in k m of
        Inl e \<Rightarrow> Inl e
      | Inr b \<Rightarrow> (case missing_fields m ks of
                   Inl e \<Rightarrow> Inl e
                 | Inr r \<Rightarrow> Inr (if b then k # r else r)))"

text \<open>\<open>folder\<close> is \<^verbatim>\<open>expected_project_dir.name\<close>.\<close>

definition validate_manifest_v1 :: "json \<Rightarrow> string \<Rightarrow> exn + unit" where
  "validate_manifest_v1 m folder =
     (case missing_fields m required_fields of
        Inl e \<Rightarrow> Inl e
      | Inr missing \<Rightarrow>
          if missing \<noteq> [] then
            Inl (Exn ProjectOpenError [Lit ''manifest.json missing required fields.'']
                   [[Lit ''missing='', Str (py_join '','' missing)]] None)
          else (case json_get m ''version'' of
            Inl e \<Rightarrow> Inl e
          | Inr v \<Rightarrow>
              if v \<noteq> Some (JStr ''v1'') then
                Inl (Exn ProjectOpenError [Lit ''Unsupported manifest version. Expected v1.'']
                       [[Lit ''version='', ReprJson v]] None)
              else (case json_get m ''project_id'' of
                Inl e \<Rightarrow> Inl e
              | Inr pid \<Rightarrow>
                  if pid \<noteq> Some (JStr folder) then
                    Inl (Exn ProjectOpenError [Lit ''Manifest project_id does not match folder name.'']
                           [[Lit ''manifest='', ReprJson pid, Lit '' folder='', Repr folder]] None)
                  else Inr ())))"


section \<open>The filesystem below the base directory\<close>

text \<open>
  A text file is the sequence of the texts written to it. A file whose whole text is one
  JSON document is \<open>[JsonDump j]\<close>, and \<^verbatim>\<open>json.loads\<close> accepts exactly such a text.
  The time stamp that \<^verbatim>\<open>_log\<close> reads from the clock is left out of a log line.
\<close>

datatype chunk =
    LogLine string string fstring   \<comment> \<open>level, event, message\<close>
  | TracebackText                   \<comment> \<open>\<^verbatim>\<open>"traceback:\n" + traceback.format_exc()\<close>\<close>
  | JsonDump json                   \<comment> \<open>\<^verbatim>\<open>json.dumps(m, indent=2, ensure_ascii=False) + "\n"\<close>\<close>
  | RawText string                  \<comment> \<open>any other text\<close>
  | DbBytes db                      \<comment> \<open>the bytes of a database file read as text\<close>

datatype node =
    File "chunk list"
  | DbFile db
  | Dir "(string \<times> node) list"

text \<open>A path is the list of its components below \<^verbatim>\<open>base_projects_dir\<close>; the state of
  the filesystem is what is at the base directory, if anything.\<close>

type_synonym path = "string list"
type_synonym filesystem = "node option"

fun lookup :: "filesystem \<Rightarrow> path \<Rightarrow> node option" where
  "lookup cur [] = cur"
| "lookup (Some (Dir es)) (x # xs) = lookup (map_of es x) xs"
| "lookup _ (x # xs) = None"

definition exists :: "filesystem \<Rightarrow> path \<Rightarrow> bool" where
  "exists f p \<longleftrightarrow> lookup f p \<noteq> None"

definition is_dir :: "node \<Rightarrow> bool" where
  "is_dir n = (case n of Dir _ \<Rightarrow> True | _ \<Rightarrow> False)"

text \<open>\<open>put f p v\<close> makes \<open>v\<close> the node at \<open>p\<close>; the parent of \<open>p\<close> must be a directory.\<close>

fun put :: "filesystem \<Rightarrow> path \<Rightarrow> node \<Rightarrow> node option" where
  "put cur [] v = Some v"
| "put (Some (Dir es)) (x # xs) v =
     (case put (map_of es x) xs v of
        None \<Rightarrow> None
      | Some c \<Rightarrow> Some (Dir (AList.update x c es)))"
| "put _ (x # xs) v = None"

definition os_error :: "exn_class \<Rightarrow> path \<Rightarrow> exn" where
  "os_error c p = Exn c [LibText ''OSError'', PathStr p] [] None"

text \<open>\<^verbatim>\<open>Path.mkdir(parents=True, exist_ok=True)\<close> on a path that does not exist as a
  directory yet: the missing ancestors are created too.\<close>

fun mkdir_p :: "filesystem \<Rightarrow> path \<Rightarrow> exn + node" where
  "mkdir_p None [] = Inr (Dir [])"
| "mkdir_p (Some (Dir es)) [] = Inr (Dir es)"
| "mkdir_p (Some _) [] = Inl (os_error FileExistsError [])"
| "mkdir_p None (x # xs) =
     (case mkdir_p None xs of Inl e \<Rightarrow> Inl e | Inr c \<Rightarrow> Inr (Dir [(x, c)]))"
| "mkdir_p (Some (Dir es)) (x # xs) =
     (case mkdir_p (map_of es x) xs of
        Inl e \<Rightarrow> Inl e
      | Inr c \<Rightarrow> Inr (Dir (AList.update x c es)))"
| "mkdir_p (Some _) (x # xs) = Inl (os_error NotADirectoryError [x])"

definition mkdir :: "filesystem \<Rightarrow> path \<Rightarrow> bool \<Rightarrow> bool \<Rightarrow> exn + filesystem" where
  "mkdir f p parents exist_ok =
     (case lookup f p of
        Some (Dir es) \<Rightarrow> if exist_ok then Inr f else Inl (os_error FileExistsError p)
      | Some _ \<Rightarrow> Inl (os_error FileExistsError p)
      | None \<Rightarrow>
          if parents then
            (case mkdir_p f p of Inl e \<Rightarrow> Inl e | Inr n \<Rightarrow> Inr (Some n))
          else
            (case put f p (Dir []) of
               None \<Rightarrow> Inl (os_error FileNotFoundError p)
             | Some n \<Rightarrow> Inr (Some n)))"

text \<open>\<^verbatim>\<open>path.open("a")\<close> and one \<^verbatim>\<open>write\<close>.\<close>

definition append_text :: "filesystem \<Rightarrow> path \<Rightarrow> chunk \<Rightarrow> exn + filesystem" where
  "append_text f p c =
     (case lookup f p of
        Some (Dir es) \<Rightarrow> Inl (os_error IsADirectoryError p)
      | r \<Rightarrow>
          (case put f p (File ((case r of
                                  Some (File cs) \<Rightarrow> cs
                                | Some (DbFile d) \<Rightarrow> [DbBytes d]
                                | _ \<Rightarrow> []) @ [c])) of
             None \<Rightarrow> Inl (os_error FileNotFoundError p)
           | Some n \<Rightarrow> Inr (Some n)))"

definition write_text :: "filesystem \<Rightarrow> path \<Rightarrow> chunk \<Rightarrow> exn + filesystem" where
  "write_text f p c =
     (case lookup f p of
        Some (Dir es) \<Rightarrow> Inl (os_error IsADirectoryError p)
      | _ \<Rightarrow>
          (case put f p (File [c]) of
             None \<Rightarrow> Inl (os_error FileNotFoundError p)
           | Some n \<Rightarrow> Inr (Some n)))"

definition read_text :: "filesystem \<Rightarrow> path \<Rightarrow> exn + chunk list" where
  "read_text f p =
     (case lookup f p of
        None \<Rightarrow> Inl (os_error FileNotFoundError p)
      | Some (Dir es) \<Rightarrow> Inl (os_error IsADirectoryError p)
      | Some (File cs) \<Rightarrow> Inr cs
      | Some (DbFile d) \<Rightarrow> Inr [DbBytes d])"

definition json_loads :: "chunk list \<Rightarrow> exn + json" where
  "json_loads cs =
     (case cs of
        [JsonDump j] \<Rightarrow> Inr j
      | _ \<Rightarrow> Inl (Exn JSONDecodeError [LibText ''json.JSONDecodeError''] [] None))"

text \<open>\<^verbatim>\<open>shutil.rmtree\<close> and \<^verbatim>\<open>Path.rename\<close> (POSIX) on entries of the base directory.\<close>

definition rmtree :: "filesystem \<Rightarrow> string \<Rightarrow> exn + filesystem" where
  "rmtree f d =
     (case f of
        Some (Dir es) \<Rightarrow>
          (case map_of es d of
             Some (Dir sub) \<Rightarrow> Inr (Some (Dir (AList.delete d es)))
           | Some _ \<Rightarrow> Inl (os_error NotADirectoryError [d])
           | None \<Rightarrow> Inl (os_error FileNotFoundError [d]))
      | _ \<Rightarrow> Inl (os_error FileNotFoundError [d]))"

definition replaceable :: "node \<Rightarrow> node \<Rightarrow> bool" where
  "replaceable src dst \<longleftrightarrow> (if is_dir src then dst = Dir [] else \<not> is_dir dst)"

definition rename :: "filesystem \<Rightarrow> string \<Rightarrow> string \<Rightarrow> exn + filesystem" where
  "rename f src dst =
     (case f of
        Some (Dir es) \<Rightarrow>
          (case map_of es src of
             None \<Rightarrow> Inl (os_error FileNotFoundError [src])
           | Some n \<Rightarrow>
               (case map_of es dst of
                  None \<Rightarrow> Inr (Some (Dir (AList.update dst n (AList.delete src es))))
                | Some t \<Rightarrow>
                    if src = dst then Inr f
                    else if replaceable n t then
                      Inr (Some (Dir (AList.update dst n (AList.delete src es))))
                    else Inl (os_error OSError [dst])))
      | _ \<Rightarrow> Inl (os_error FileNotFoundError [src]))"

text \<open>\<^verbatim>\<open>sqlite3.connect\<close> creates the file when it is missing; an empty file is an
  empty database.\<close>

definition sqlite_error :: "string \<Rightarrow> exn" where
  "sqlite_error what = Exn SqliteError [LibText what] [] None"

definition sqlite_connect :: "filesystem \<Rightarrow> path \<Rightarrow> exn + filesystem" where
  "sqlite_connect f p =
     (case lookup f p of
        None \<Rightarrow>
          (case put f p (DbFile empty_db) of
             None \<Rightarrow> Inl (sqlite_error ''unable to open database file'')
           | Some n \<Rightarrow> Inr (Some n))
      | Some (Dir es) \<Rightarrow> Inl (sqlite_error ''unable to open database file'')
      | Some _ \<Rightarrow> Inr f)"

definition read_db :: "filesystem \<Rightarrow> path \<Rightarrow> exn + db" where
  "read_db f p =
     (case lookup f p of
        Some (DbFile d) \<Rightarrow> Inr d
      | Some (File []) \<Rightarrow> Inr empty_db
      | _ \<Rightarrow> Inl (sqlite_error ''file is not a database''))"


section \<open>The environment and the state of a run\<close>

text \<open>
  What the program reads from outside itself is a parameter: the UTC date and time, the
  random suffix \<^verbatim>\<open>uuid.uuid4().hex\<close>, SHA-256, what SQLite's \<^verbatim>\<open>executescript\<close>
  does to a database (an exception or none, and the database left behind), and what
  \<^verbatim>\<open>PRAGMA table_info\<close> gives for a text that is neither a plain name nor a reserved
  word. Any call
  that touches the disk or the database may raise: \<open>fails\<close> says at which call sites it
  does; a call that raises so leaves the state as it was.
\<close>

datatype io_site =
    SiteMkdir path
  | SiteLog path string
  | SiteConnect path
  | SiteExecScript
  | SiteUpsert
  | SiteVerify
  | SiteIntrospect
  | SiteClose
  | SiteWrite path
  | SiteRead path
  | SiteRename
  | SiteRmtree

record env =
  today :: string
  now_iso :: string
  uuid_hex :: string
  sha256_hex :: "string \<Rightarrow> string"
  executescript :: "string \<Rightarrow> db \<Rightarrow> exn option \<times> db"
  table_info_other :: "string \<Rightarrow> (string \<times> string list) list \<Rightarrow> exn + string list"
  fails :: "io_site \<Rightarrow> bool"

definition io_error :: "io_site \<Rightarrow> exn" where
  "io_error site =
     (case site of
        SiteConnect p \<Rightarrow> sqlite_error ''sqlite3.Error''
      | SiteExecScript \<Rightarrow> sqlite_error ''sqlite3.Error''
      | SiteUpsert \<Rightarrow> sqlite_error ''sqlite3.Error''
      | SiteVerify \<Rightarrow> sqlite_error ''sqlite3.Error''
      | SiteIntrospect \<Rightarrow> sqlite_error ''sqlite3.Error''
      | SiteClose \<Rightarrow> sqlite_error ''sqlite3.Error''
      | _ \<Rightarrow> Exn OSError [LibText ''OSError''] [] None)"

text \<open>\<open>history\<close> lists every state the filesystem went through, the latest last.\<close>

record state =
  fs_now :: filesystem
  conn_open :: bool
  history :: "filesystem list"

type_synonym step = "state \<Rightarrow> exn option \<times> state"

definition init_state :: "filesystem \<Rightarrow> state" where
  "init_state f = \<lparr>fs_now = f, conn_open = False, history = [f]\<rparr>"

definition set_fs :: "filesystem \<Rightarrow> state \<Rightarrow> state" where
  "set_fs f s = s\<lparr>fs_now := f, history := history s @ [f]\<rparr>"

text \<open>Statements in sequence: the first exception ends the run.\<close>

fun run :: "step list \<Rightarrow> step" where
  "run [] s = (None, s)"
| "run (c # cs) s =
     (case c s of
        (Some e, s') \<Rightarrow> (Some e, s')
      | (None, s') \<Rightarrow> run cs s')"

definition fs_step :: "env \<Rightarrow> io_site \<Rightarrow> (filesystem \<Rightarrow> exn + filesystem) \<Rightarrow> step" where
  "fs_step ev site op s =
     (if fails ev site then (Some (io_error site), s)
      else case op (fs_now s) of
             Inl e \<Rightarrow> (Some e, s)
           | Inr f \<Rightarrow> (None, set_fs f s))"

definition db_step :: "env \<Rightarrow> io_site \<Rightarrow> path \<Rightarrow> (db \<Rightarrow> exn option \<times> db) \<Rightarrow> step" where
  "db_step ev site p op s =
     (if fails ev site then (Some (io_error site), s)
      else case read_db (fs_now s) p of
             Inl e \<Rightarrow> (Some e, s)
           | Inr d \<Rightarrow>
               (case op d of
                  (r, d') \<Rightarrow>
                    (case put (fs_now s) p (DbFile d') of
                       None \<Rightarrow> (Some (sqlite_error ''unable to open database file''), s)
                     | Some n \<Rightarrow> (r, set_fs (Some n) s))))"

definition db_check :: "env \<Rightarrow> io_site \<Rightarrow> filesystem \<Rightarrow> path \<Rightarrow> (db \<Rightarrow> exn + unit) \<Rightarrow> exn option" where
  "db_check ev site f p chk =
     (if fails ev site then Some (io_error site)
      else case read_db f p of
             Inl e \<Rightarrow> Some e
           | Inr d \<Rightarrow> (case chk d of Inl e \<Rightarrow> Some e | Inr u \<Rightarrow> None))"

definition check_step :: "(filesystem \<Rightarrow> exn option) \<Rightarrow> step" where
  "check_step chk s = (chk (fs_now s), s)"

section \<open>Logging\<close>

definition write_text_line :: "env \<Rightarrow> io_site \<Rightarrow> path \<Rightarrow> chunk \<Rightarrow> step" where
  "write_text_line ev site p line =
     fs_step ev site (\<lambda>f.
       case mkdir f (butlast p) True True of
         Inl e \<Rightarrow> Inl e
       | Inr f' \<Rightarrow> append_text f' p line)"

definition log_event :: "env \<Rightarrow> path \<Rightarrow> string \<Rightarrow> string \<Rightarrow> fstring \<Rightarrow> step" where
  "log_event ev log_path level event msg =
     write_text_line ev (SiteLog log_path event) log_path (LogLine level event msg)"

section \<open>Schema guard on a connection\<close>

definition compute_schema_hash :: "env \<Rightarrow> string \<Rightarrow> string" where
  "compute_schema_hash ev canonical_schema_sql =
     sha256_hex ev (py_replace_crlf (py_strip canonical_schema_sql))"


definition connect_step :: "env \<Rightarrow> path \<Rightarrow> step" where
  "connect_step ev p s =
     (case fs_step ev (SiteConnect p) (\<lambda>f. sqlite_connect f p) s of
        (None, s') \<Rightarrow> (None, s'\<lparr>conn_open := True\<rparr>)
      | r \<Rightarrow> r)"

definition close_step :: "env \<Rightarrow> step" where
  "close_step ev s =
     (if fails ev SiteClose then (Some (io_error SiteClose), s)
      else (None, s\<lparr>conn_open := False\<rparr>))"

text \<open>The functions of the schema guard, run on the connection to the file at \<open>p\<close>.\<close>

definition apply_canonical_schema :: "env \<Rightarrow> path \<Rightarrow> string \<Rightarrow> step" where
  "apply_canonical_schema ev p schema_sql = db_step ev SiteExecScript p (executescript ev schema_sql)"

definition upsert_step :: "env \<Rightarrow> path \<Rightarrow> string \<Rightarrow> string \<Rightarrow> step" where
  "upsert_step ev p schema_version schema_hash =
     db_step ev SiteUpsert p (\<lambda>d.
       case upsert_schema_meta schema_version schema_hash d of
         Inl e \<Rightarrow> (Some e, d)
       | Inr d' \<Rightarrow> (None, d'))"

definition verify_step :: "env \<Rightarrow> path \<Rightarrow> string \<Rightarrow> string \<Rightarrow> step" where
  "verify_step ev p expected_version expected_hash =
     check_step (\<lambda>f. db_check ev SiteVerify f p (verify_schema_meta expected_version expected_hash))"

definition validate_step :: "env \<Rightarrow> path \<Rightarrow> ExpectedSchema \<Rightarrow> step" where
  "validate_step ev p expected =
     check_step (\<lambda>f. db_check ev SiteIntrospect f p (\<lambda>d. validate_schema (table_info_other ev) d expected))"

section \<open>Reading manifests\<close>

text \<open>\<^verbatim>\<open>json.loads(path.read_text(encoding="utf-8"))\<close>\<close>

definition load_json :: "env \<Rightarrow> io_site \<Rightarrow> filesystem \<Rightarrow> path \<Rightarrow> exn + json" where
  "load_json ev site f p =
     (if fails ev site then Inl (io_error site)
      else sum_bind (read_text f p) json_loads)"

definition read_manifest :: "env \<Rightarrow> filesystem \<Rightarrow> path \<Rightarrow> exn + json" where
  "read_manifest ev f manifest_path =
     (case load_json ev (SiteRead manifest_path) f manifest_path of
        Inr m \<Rightarrow> Inr m
      | Inl e \<Rightarrow>
          if cls e = FileNotFoundError then
            Inl (Exn ProjectOpenError [Lit ''manifest.json not found.''] [message e] None)
          else
            Inl (Exn ProjectOpenError [Lit ''manifest.json is corrupt or unreadable.'']
                   [message e] None))"

section \<open>Project discovery helpers\<close>

fun scan_entries :: "env \<Rightarrow> string \<Rightarrow> (string \<times> node) list \<Rightarrow> exn + string list" where
  "scan_entries ev pname [] = Inr []"
| "scan_entries ev pname ((d, n) # rest) =
     (if \<not> is_dir n then scan_entries ev pname rest
      else if \<not> exists (Some n) [''manifest.json''] then scan_entries ev pname rest
      else case load_json ev (SiteRead [d, ''manifest.json'']) (Some n) [''manifest.json''] of
             Inl e \<Rightarrow> scan_entries ev pname rest
           | Inr m \<Rightarrow>
               sum_bind (json_get m ''version'') (\<lambda>v.
                 if v = Some (JStr ''v1'') then
                   sum_bind (json_get m ''project_name'') (\<lambda>n'.
                     if n' = Some (JStr pname) then
                       sum_bind (scan_entries ev pname rest) (\<lambda>hits. Inr (d # hits))
                     else scan_entries ev pname rest)
                 else scan_entries ev pname rest))"

definition scan_for_project_name :: "env \<Rightarrow> filesystem \<Rightarrow> string \<Rightarrow> exn + string list" where
  "scan_for_project_name ev f pname =
     (case f of
        None \<Rightarrow> Inr []
      | Some (Dir es) \<Rightarrow> scan_entries ev pname es
      | Some _ \<Rightarrow> Inl (os_error NotADirectoryError []))"

definition subfolders :: "string list" where
  "subfolders = [''pdfs'', ''ingested'', ''indexes'', ''drafts'', ''exports'', ''logs'']"

definition ensure_staging_tree :: "env \<Rightarrow> string \<Rightarrow> step list" where
  "ensure_staging_tree ev staging_dir =
     fs_step ev (SiteMkdir [staging_dir]) (\<lambda>f. mkdir f [staging_dir] True False)
     # map (\<lambda>sub. fs_step ev (SiteMkdir [staging_dir, sub])
                     (\<lambda>f. mkdir f [staging_dir, sub] False False)) subfolders"

section \<open>Public API\<close>

record ProjectInfo =
  project_id :: json
  project_dir :: string
  manifest_path :: path
  database_path :: path
  status :: string

definition project_id_of :: "env \<Rightarrow> ProjectConfig \<Rightarrow> string" where
  "project_id_of ev cfg = today ev @ ''_'' @ project_name cfg"

definition staging_dir_of :: "env \<Rightarrow> ProjectConfig \<Rightarrow> string" where
  "staging_dir_of ev cfg = ''.tmp_'' @ project_id_of ev cfg @ ''_'' @ uuid_hex ev"

text \<open>\<^verbatim>\<open>",".join(str(p) for p in dirs)\<close>, as the parts of the joined text.\<close>

fun join_paths :: "string list \<Rightarrow> fstring" where
  "join_paths [] = []"
| "join_paths [d] = [PathStr [d]]"
| "join_paths (d # d' # ds) = PathStr [d] # Lit '','' # join_paths (d' # ds)"

text \<open>The checks of \<^verbatim>\<open>create_project\<close> before its \<^verbatim>\<open>try\<close> block.\<close>

definition precheck :: "env \<Rightarrow> ProjectConfig \<Rightarrow> filesystem \<Rightarrow> exn option" where
  "precheck ev cfg f =
     (case validate_config cfg of
        Inl e \<Rightarrow> Some e
      | Inr u \<Rightarrow>
          (case scan_for_project_name ev f (project_name cfg) of
             Inl e \<Rightarrow> Some e
           | Inr dup_name_dirs \<Rightarrow>
               if dup_name_dirs \<noteq> [] then
                 Some (Exn DuplicateProjectNameError
                         [Lit (''Duplicate project_name '' @ [CHR 0x27]), Str (project_name cfg),
                          Lit (CHR 0x27 # '' already exists.'')]
                         [Lit ''found_in='' # join_paths dup_name_dirs] None)
               else if exists f [project_id_of ev cfg] then
                 Some (Exn DuplicateProjectIdError
                         [Lit (''Duplicate project_id '' @ [CHR 0x27]), Str (project_id_of ev cfg),
                          Lit (CHR 0x27 # '' already exists.'')]
                         [[PathStr [project_id_of ev cfg]]] None)
               else None))"

text \<open>The statements of the \<^verbatim>\<open>try\<close> block, in order: those that build the
  workspace under the staging name, then the rename and the last log line.\<close>

definition staging_steps :: "env \<Rightarrow> ProjectConfig \<Rightarrow> ExpectedSchema \<Rightarrow> string \<Rightarrow> step list" where
  "staging_steps ev cfg expected_schema canonical_schema_sql =
     (let pid = project_id_of ev cfg;
          final_dir = pid;
          staging_dir = staging_dir_of ev cfg;
          created_at = now_iso ev;
          log_path = [staging_dir, ''logs'', ''project.log''];
          db_path = [staging_dir, ''library.db''];
          mpath = [staging_dir, ''manifest.json''];
          schema_hash = compute_schema_hash ev canonical_schema_sql
      in [fs_step ev (SiteMkdir []) (\<lambda>f. mkdir f [] True True)]
         @ ensure_staging_tree ev staging_dir
         @ [log_event ev log_path ''INFO'' ''create.start''
              [Lit ''project_name='', Str (project_name cfg),
               Lit '' sources='', Str (py_join '','' (sources cfg)),
               Lit '' citation_style='', Str (citation_style cfg)],
            log_event ev log_path ''INFO'' ''create.dirs_created'' [],
            log_event ev log_path ''INFO'' ''create.db_init'' [Lit ''path='', PathStr db_path],
            connect_step ev db_path,
            apply_canonical_schema ev db_path canonical_schema_sql,
            upsert_step ev db_path ''v1'' schema_hash,
            verify_step ev db_path ''v1'' schema_hash,
            validate_step ev db_path expected_schema,
            log_event ev log_path ''INFO'' ''create.schema_validated'' [],
            close_step ev,
            fs_step ev (SiteWrite mpath)
              (\<lambda>f. write_text f mpath (JsonDump (manifest_dict cfg pid created_at))),
            log_event ev log_path ''INFO'' ''create.manifest_written'' [Lit ''path='', PathStr mpath],
            check_step (\<lambda>f.
              case sum_bind (read_manifest ev f mpath) (\<lambda>m. validate_manifest_v1 m final_dir) of
                Inl e \<Rightarrow> Some e
              | Inr u \<Rightarrow> None)])"

definition promote_steps :: "env \<Rightarrow> ProjectConfig \<Rightarrow> step list" where
  "promote_steps ev cfg =
     (let final_dir = project_id_of ev cfg;
          staging_dir = staging_dir_of ev cfg
      in [fs_step ev SiteRename (\<lambda>f. rename f staging_dir final_dir),
          log_event ev [final_dir, ''logs'', ''project.log''] ''INFO'' ''create.finalized''
            [Lit ''project_dir='', PathStr [final_dir]]])"

definition try_body :: "env \<Rightarrow> ProjectConfig \<Rightarrow> ExpectedSchema \<Rightarrow> string \<Rightarrow> step list" where
  "try_body ev cfg expected_schema canonical_schema_sql =
     staging_steps ev cfg expected_schema canonical_schema_sql @ promote_steps ev cfg"

text \<open>The \<^verbatim>\<open>except Exception as e\<close> block: what it raises, and the state it leaves.\<close>

definition reraise :: "exn \<Rightarrow> exn" where
  "reraise e =
     (if is_ProjectCreatorError e then e
      else Exn GenericProjectCreatorError [Lit ''Project creation failed.''] [message e] (Some e))"

definition except_handler :: "env \<Rightarrow> ProjectConfig \<Rightarrow> exn \<Rightarrow> state \<Rightarrow> exn \<times> state" where
  "except_handler ev cfg e s =
     (let staging_dir = staging_dir_of ev cfg;
          log_path = [staging_dir, ''logs'', ''project.log''];
          s1 = (if exists (fs_now s) [staging_dir] then
                  snd (run [log_event ev log_path ''ERROR'' ''create.failed''
                              ([Lit ''error='', ClsName (cls e), Lit '' detail=''] @ message e),
                            write_text_line ev (SiteLog log_path ''traceback'') log_path
                              TracebackText] s)
                else s);
          s2 = (if conn_open s1 then snd (close_step ev s1) else s1)
      in if exists (fs_now s2) [staging_dir] then
           (case fs_step ev SiteRmtree (\<lambda>f. rmtree f staging_dir) s2 of
              (Some re_err, s3) \<Rightarrow>
                (Exn FilesystemError [Lit ''Creation failed and rollback also failed.'']
                   [message re_err] (Some e), s3)
            | (None, s3) \<Rightarrow> (reraise e, s3))
         else (reraise e, s2))"

definition create_project ::
  "env \<Rightarrow> ProjectConfig \<Rightarrow> ExpectedSchema \<Rightarrow> string \<Rightarrow> filesystem \<Rightarrow> (exn + ProjectInfo) \<times> state" where
  "create_project ev cfg expected_schema canonical_schema_sql f =
     (case precheck ev cfg f of
        Some e \<Rightarrow> (Inl e, init_state f)
      | None \<Rightarrow>
          (case run (try_body ev cfg expected_schema canonical_schema_sql) (init_state f) of
             (None, s) \<Rightarrow>
               (Inr \<lparr>project_id = JStr (project_id_of ev cfg),
                     project_dir = project_id_of ev cfg,
                     manifest_path = [project_id_of ev cfg, ''manifest.json''],
                     database_path = [project_id_of ev cfg, ''library.db''],
                     status = ''created''\<rparr>, s)
           | (Some e, s) \<Rightarrow>
               (case except_handler ev cfg e s of (e', s') \<Rightarrow> (Inl e', s'))))"


record ProjectSummary =
  sum_project_id :: json
  sum_project_name :: json
  sum_project_dir :: string
  sum_created_at :: json
  sum_topic_prompt :: json
  valid :: bool
  error :: "fstring option"

text \<open>The body of the \<^verbatim>\<open>try\<close> in \<^verbatim>\<open>list_projects\<close> for the directory \<open>d\<close> with node \<open>n\<close>.\<close>

definition try_summary :: "env \<Rightarrow> string \<Rightarrow> node \<Rightarrow> exn + ProjectSummary" where
  "try_summary ev d n =
     sum_bind (load_json ev (SiteRead [d, ''manifest.json'']) (Some n) [''manifest.json'']) (\<lambda>m.
     sum_bind (json_get m ''version'') (\<lambda>v.
       if v \<noteq> Some (JStr ''v1'') then
         Inl (Exn ValueError [Lit ''Unsupported version: '', ReprJson v] [] None)
       else
     sum_bind (json_get m ''project_id'') (\<lambda>i.
       if i \<noteq> Some (JStr d) then
         Inl (Exn ValueError [Lit ''project_id mismatch''] [] None)
       else
     sum_bind (json_item m ''project_id'') (\<lambda>pid.
     sum_bind (json_item m ''project_name'') (\<lambda>pname.
     sum_bind (json_item m ''created_at'') (\<lambda>created.
     sum_bind (json_item m ''topic_prompt'') (\<lambda>topic.
       Inr \<lparr>sum_project_id = pid, sum_project_name = pname, sum_project_dir = d,
            sum_created_at = created, sum_topic_prompt = topic, valid = True,
            error = None\<rparr>)))))))"

definition invalid_summary :: "string \<Rightarrow> exn \<Rightarrow> ProjectSummary" where
  "invalid_summary d e =
     \<lparr>sum_project_id = JStr d, sum_project_name = JStr ''(unknown)'', sum_project_dir = d,
      sum_created_at = JStr [], sum_topic_prompt = JStr [], valid = False,
      error = Some (message e)\<rparr>"

definition summarize :: "env \<Rightarrow> string \<times> node \<Rightarrow> ProjectSummary list" where
  "summarize ev dn =
     (case dn of (d, n) \<Rightarrow>
        if \<not> exists (Some n) [''manifest.json''] then []
        else [case try_summary ev d n of
                Inl e \<Rightarrow> invalid_summary d e
              | Inr r \<Rightarrow> r])"

definition list_projects :: "env \<Rightarrow> filesystem \<Rightarrow> exn + ProjectSummary list" where
  "list_projects ev f =
     (case f of
        None \<Rightarrow> Inr []
      | Some (Dir es) \<Rightarrow>
          Inr (concat (map (summarize ev) (sort_key fst (filter (\<lambda>dn. is_dir (snd dn)) es))))
      | Some _ \<Rightarrow> Inl (os_error NotADirectoryError []))"


section \<open>Reference predicates and example inputs\<close>

text \<open>A diagnostic states a value when one of its lines formats that value.\<close>

definition spec_states_value :: "pytext \<Rightarrow> string \<Rightarrow> bool" where
  "spec_states_value diag v \<longleftrightarrow> list_ex (\<lambda>line. Repr v \<in> set line \<or> Str v \<in> set line) diag"

text \<open>A diagnostic names a field when the literal text of one of its lines contains the
  field's name.\<close>

definition spec_names_field :: "pytext \<Rightarrow> string \<Rightarrow> bool" where
  "spec_names_field diag fld \<longleftrightarrow>
     list_ex (\<lambda>line. list_ex (\<lambda>p. case p of Lit s \<Rightarrow> py_in_str fld s | _ \<Rightarrow> False) line) diag"

text \<open>A manifest that \<^verbatim>\<open>list_projects\<close> reports as valid: it loads as a dict, declares
  version v1 and the directory's name as its id, and has the three fields the summary
  shows.\<close>

definition spec_manifest_valid :: "env \<Rightarrow> string \<Rightarrow> node \<Rightarrow> bool" where
  "spec_manifest_valid ev d n \<longleftrightarrow>
     (case load_json ev (SiteRead [d, ''manifest.json'']) (Some n) [''manifest.json''] of
        Inr (JObj kvs) \<Rightarrow>
          map_of kvs ''version'' = Some (JStr ''v1'') \<and> map_of kvs ''project_id'' = Some (JStr d)
          \<and> map_of kvs ''project_name'' \<noteq> None \<and> map_of kvs ''created_at'' \<noteq> None
          \<and> map_of kvs ''topic_prompt'' \<noteq> None
      | _ \<Rightarrow> False)"

text \<open>The workspace is fully promoted in the filesystem \<open>h\<close>: under the final name are
  the six subfolders, a database that passes both checks of the schema guard, the manifest
  of this creation and the log file, and nothing is left under the staging name.\<close>

definition fully_promoted :: "env \<Rightarrow> ProjectConfig \<Rightarrow> ExpectedSchema \<Rightarrow> string \<Rightarrow> filesystem \<Rightarrow> bool" where
  "fully_promoted ev cfg expected sql h \<longleftrightarrow>
     (let fin = project_id_of ev cfg
      in list_all (\<lambda>sub. case lookup h [fin, sub] of Some (Dir es) \<Rightarrow> True | _ \<Rightarrow> False) subfolders
       \<and> (case lookup h [fin, ''library.db''] of
            Some (DbFile d) \<Rightarrow>
              verify_schema_meta ''v1'' (compute_schema_hash ev sql) d = Inr ()
              \<and> validate_schema (table_info_other ev) d expected = Inr ()
          | _ \<Rightarrow> False)
       \<and> lookup h [fin, ''manifest.json'']
           = Some (File [JsonDump (manifest_dict cfg fin (now_iso ev))])
       \<and> (case lookup h [fin, ''logs'', ''project.log''] of Some (File cs) \<Rightarrow> True | _ \<Rightarrow> False)
       \<and> lookup h [staging_dir_of ev cfg] = None)"

text \<open>From the state \<open>s\<close> to the state \<open>s'\<close> the filesystem went through the states
  \<open>hs\<close>, each recorded, and none changed an entry of the base directory outside the
  names in \<open>S\<close>. A step is confined to \<open>S\<close> when every outcome of it is such.\<close>

definition evolves :: "string set \<Rightarrow> state \<Rightarrow> state \<Rightarrow> bool" where
  "evolves S s s' \<longleftrightarrow>
     (\<exists>hs. history s' = history s @ hs
        \<and> (\<forall>h \<in> set hs. \<forall>n. n \<notin> S \<longrightarrow> lookup h [n] = lookup (fs_now s) [n])
        \<and> fs_now s' = last (fs_now s # hs))"

definition confined :: "string set \<Rightarrow> step \<Rightarrow> bool" where
  "confined S c \<longleftrightarrow> (\<forall>s e s'. c s = (e, s') \<longrightarrow> evolves S s s')"

text \<open>The base directory with entries \<open>es\<close> in which the entry \<open>a\<close> is the node \<open>X\<close>, and
  the node of a workspace that has been built: the six subfolders, the log with the lines
  \<open>cs\<close>, the database \<open>d\<close> and the manifest \<open>m\<close>.\<close>

definition in_base :: "(string \<times> node) list \<Rightarrow> string \<Rightarrow> node \<Rightarrow> node" where
  "in_base es a X = Dir (AList.update a X es)"

definition workspace_node :: "chunk list \<Rightarrow> db \<Rightarrow> json \<Rightarrow> node" where
  "workspace_node cs d m =
     Dir [(''pdfs'', Dir []), (''ingested'', Dir []), (''indexes'', Dir []),
          (''drafts'', Dir []), (''exports'', Dir []),
          (''logs'', Dir [(''project.log'', File cs)]),
          (''library.db'', DbFile d),
          (''manifest.json'', File [JsonDump m])]"

text \<open>A project name as the claim C3 reads the pattern: the whole string is a non-empty
  run of lowercase letters, digits and underscores.\<close>

definition spec_name_ok :: "string \<Rightarrow> bool" where
  "spec_name_ok s \<longleftrightarrow> s \<noteq> [] \<and> list_all name_char s"

definition ex_db :: db where
  "ex_db = \<lparr>tables = [(''schema_meta'', [''key'', ''value'']), (''papers'', [''paper_id'', ''title''])],
            marker_rule = KeyUnique, meta = []\<rparr>"

definition ex_expected :: ExpectedSchema where
  "ex_expected = [\<lparr>name = ''schema_meta'', columns = [''key'', ''value'']\<rparr>,
                  \<lparr>name = ''papers'', columns = [''title'', ''paper_id'']\<rparr>]"

text \<open>A database and an expected schema with the same tables, one of them named by a
  reserved word; and a database with a further table whose name starts with
  \<^verbatim>\<open>sqlite\<close>.\<close>

definition ex_db_order :: db where
  "ex_db_order = \<lparr>tables = [(''schema_meta'', [''key'', ''value'']),
                             (''order'', [''order_id'', ''paper_id''])],
                   marker_rule = KeyUnique, meta = []\<rparr>"

definition ex_expected_order :: ExpectedSchema where
  "ex_expected_order = [\<lparr>name = ''schema_meta'', columns = [''key'', ''value'']\<rparr>,
                        \<lparr>name = ''order'', columns = [''order_id'', ''paper_id'']\<rparr>]"

definition ex_db_sqlitex :: db where
  "ex_db_sqlitex = \<lparr>tables = [(''schema_meta'', [''key'', ''value'']),
                               (''papers'', [''paper_id'', ''title'']),
                               (''sqlitexnotes'', [''note''])],
                     marker_rule = KeyUnique, meta = []\<rparr>"

definition ex_env :: env where
  "ex_env = \<lparr>today = ''2026-11-04'', now_iso = ''2026-11-04T09:00:00Z'', uuid_hex = ''0f'',
             sha256_hex = (\<lambda>s. ''aa''), executescript = (\<lambda>sql d. (None, ex_db)),
             table_info_other = (\<lambda>t d. Inl (syntax_error t)),
             fails = (\<lambda>site. False)\<rparr>"

definition ex_cfg :: ProjectConfig where
  "ex_cfg = \<lparr>project_name = ''abc'', topic_prompt = ''strain'', citation_style = ''vancouver'',
             sources = [''pmc''], cfg_notes = None\<rparr>"

text \<open>Environments in which one call fails: the rename; the rename and the rollback's
  \<^verbatim>\<open>rmtree\<close>; the last log line, after the rename; the schema script.\<close>

definition ex_env_rename_fails :: env where
  "ex_env_rename_fails = ex_env\<lparr>fails := (\<lambda>site. site = SiteRename)\<rparr>"

definition ex_env_rollback_fails :: env where
  "ex_env_rollback_fails = ex_env\<lparr>fails := (\<lambda>site. site = SiteRename \<or> site = SiteRmtree)\<rparr>"

definition ex_env_final_log_fails :: env where
  "ex_env_final_log_fails =
     ex_env\<lparr>fails := (\<lambda>site. site = SiteLog [''2026-11-04_abc'', ''logs'', ''project.log'']
                                      ''create.finalized'')\<rparr>"


text \<open>The rollback's deletion fails from the state \<open>s\<close> in which the \<^verbatim>\<open>try\<close> block
  failed: the staging path exists, so that \<^verbatim>\<open>shutil.rmtree\<close> is called, and the call
  raises, by a fault of the disk or because the path is not a directory.\<close>

definition rollback_fails :: "env \<Rightarrow> ProjectConfig \<Rightarrow> state \<Rightarrow> bool" where
  "rollback_fails ev cfg s \<longleftrightarrow>
     exists (fs_now s) [staging_dir_of ev cfg]
     \<and> (fails ev SiteRmtree \<or> isl (rmtree (fs_now s) (staging_dir_of ev cfg)))"




definition ex_expected_notes :: ExpectedSchema where
  "ex_expected_notes = ex_expected @ [\<lparr>name = ''notes'', columns = [''note_id'']\<rparr>]"

text \<open>The subfolder names as the claim C9 lists them.\<close>

definition spec_subfolders :: "string list" where
  "spec_subfolders = [''artifact-inbox'', ''ingested-output'', ''index-storage'', ''drafts'',
                      ''exports'', ''logs'']"

section \<open>The marker table\<close>









lemma names_version_missing:
  "py_in_str ''schema_version'' ''schema_meta.schema_version missing''"
  by code_simp

lemma names_version_expected:
  "py_in_str ''schema_version'' ''expected schema_version=''"
  by code_simp

lemma names_hash_missing:
  "py_in_str ''schema_hash'' ''schema_meta.schema_hash missing''"
  by code_simp

lemma names_hash_expected:
  "py_in_str ''schema_hash'' ''expected schema_hash=''"
  by code_simp

text \<open>
  C5, as stated, at a database with the marker table and no rows: the failure is a schema
  mismatch whose diagnostic names the field and says it is missing, and does not state the
  expected version.
\<close>

theorem verify_schema_meta_missing_row_counterexample:
  "verify_schema_meta ''v1'' ''aa'' ex_db =
     Inl (schema_mismatch [Lit ''schema_meta missing schema_version.'']
            [[Lit ''schema_meta.schema_version missing'']])
   \<and> \<not> spec_states_value [[Lit ''schema_meta.schema_version missing'']] ''v1''"
  by (simp add: verify_schema_meta_def ex_db_def has_meta_table_def select_value_def
      spec_states_value_def)

text \<open>
  C5, amended. \<^verbatim>\<open>verify_schema_meta\<close> returns exactly when the marker table exists and
  both rows hold the expected values. On a database with the marker table every failure is
  a schema mismatch: for a missing row the diagnostic names the field and says it is
  missing; for a differing value it names the field and gives the expected and the actual
  value. Without the marker table the failure is SQLite's own error.
\<close>

theorem verify_schema_meta_outcome:
  "(verify_schema_meta xv xh d = Inr () \<longleftrightarrow>
      has_meta_table d \<and> select_value d ''schema_version'' = Some xv
      \<and> select_value d ''schema_hash'' = Some xh)
   \<and> (\<forall>e. verify_schema_meta xv xh d = Inl e \<longrightarrow>
        (if has_meta_table d then
           cls e = DatabaseSchemaMismatchError
           \<and> (case select_value d ''schema_version'' of
                None \<Rightarrow>
                  diagnostic e = [[Lit ''schema_meta.schema_version missing'']]
                  \<and> spec_names_field (diagnostic e) ''schema_version''
              | Some v \<Rightarrow>
                  if v \<noteq> xv then
                    diagnostic e = [[Lit ''expected schema_version='', Repr xv, Lit '' got '', Repr v]]
                    \<and> spec_names_field (diagnostic e) ''schema_version''
                    \<and> spec_states_value (diagnostic e) xv \<and> spec_states_value (diagnostic e) v
                  else (case select_value d ''schema_hash'' of
                    None \<Rightarrow>
                      diagnostic e = [[Lit ''schema_meta.schema_hash missing'']]
                      \<and> spec_names_field (diagnostic e) ''schema_hash''
                  | Some h \<Rightarrow>
                      h \<noteq> xh
                      \<and> diagnostic e = [[Lit ''expected schema_hash='', Str xh, Lit '' got '', Str h]]
                      \<and> spec_names_field (diagnostic e) ''schema_hash''
                      \<and> spec_states_value (diagnostic e) xh \<and> spec_states_value (diagnostic e) h))
         else e = no_meta_table_error))"
proof (intro conjI allI impI)
  show "verify_schema_meta xv xh d = Inr () \<longleftrightarrow>
      has_meta_table d \<and> select_value d ''schema_version'' = Some xv
      \<and> select_value d ''schema_hash'' = Some xh"
    by (auto simp: verify_schema_meta_def Let_def split: option.splits)
next
  fix e
  assume f: "verify_schema_meta xv xh d = Inl e"
  show "if has_meta_table d then
           cls e = DatabaseSchemaMismatchError
           \<and> (case select_value d ''schema_version'' of
                None \<Rightarrow>
                  diagnostic e = [[Lit ''schema_meta.schema_version missing'']]
                  \<and> spec_names_field (diagnostic e) ''schema_version''
              | Some v \<Rightarrow>
                  if v \<noteq> xv then
                    diagnostic e = [[Lit ''expected schema_version='', Repr xv, Lit '' got '', Repr v]]
                    \<and> spec_names_field (diagnostic e) ''schema_version''
                    \<and> spec_states_value (diagnostic e) xv \<and> spec_states_value (diagnostic e) v
                  else (case select_value d ''schema_hash'' of
                    None \<Rightarrow>
                      diagnostic e = [[Lit ''schema_meta.schema_hash missing'']]
                      \<and> spec_names_field (diagnostic e) ''schema_hash''
                  | Some h \<Rightarrow>
                      h \<noteq> xh
                      \<and> diagnostic e = [[Lit ''expected schema_hash='', Str xh, Lit '' got '', Str h]]
                      \<and> spec_names_field (diagnostic e) ''schema_hash''
                      \<and> spec_states_value (diagnostic e) xh \<and> spec_states_value (diagnostic e) h))
         else e = no_meta_table_error"
  proof (cases "has_meta_table d")
    case False
    then show ?thesis using f by (simp add: verify_schema_meta_def)
  next
    case True
    show ?thesis
    proof (cases "select_value d ''schema_version''")
      case None
      then show ?thesis using f True
        by (auto simp: verify_schema_meta_def schema_mismatch_def spec_names_field_def
            names_version_missing)
    next
      case (Some v)
      show ?thesis
      proof (cases "v = xv")
        case False
        then show ?thesis using f True Some
          by (auto simp: verify_schema_meta_def schema_mismatch_def spec_names_field_def
              spec_states_value_def names_version_expected)
      next
        case vx: True
        show ?thesis
        proof (cases "select_value d ''schema_hash''")
          case None
          then show ?thesis using f True Some vx
            by (auto simp: verify_schema_meta_def schema_mismatch_def spec_names_field_def
                names_hash_missing)
        next
          case (Some h)
          then show ?thesis using f True \<open>select_value d ''schema_version'' = Some v\<close> vx
            by (auto simp: verify_schema_meta_def schema_mismatch_def spec_names_field_def
                spec_states_value_def names_hash_expected split: if_splits)
        qed
      qed
    qed
  qed
qed

theorem verify_schema_meta_outcome_witness:
  "has_meta_table (ex_db\<lparr>meta := [(''schema_version'', ''v2'')]\<rparr>)
   \<and> verify_schema_meta ''v1'' ''aa'' (ex_db\<lparr>meta := [(''schema_version'', ''v2'')]\<rparr>)
       = Inl (schema_mismatch [Lit ''Unsupported schema_version in library.db.'']
                [[Lit ''expected schema_version='', Repr ''v1'', Lit '' got '', Repr ''v2'']])
   \<and> cls (schema_mismatch [Lit ''Unsupported schema_version in library.db.'']
                [[Lit ''expected schema_version='', Repr ''v1'', Lit '' got '', Repr ''v2'']])
       = DatabaseSchemaMismatchError"
  using verify_schema_meta_outcome [of "''v1''" "''aa''" "ex_db\<lparr>meta := [(''schema_version'', ''v2'')]\<rparr>"]
  by (simp add: verify_schema_meta_def ex_db_def has_meta_table_def select_value_def)

section \<open>Schema validation\<close>

lemma map_of_foldl_update:
  "map_of (foldl (\<lambda>d (k, v). AList.update k v d) acc items) = map_of (rev items @ acc)"
proof (induction items arbitrary: acc)
  case Nil
  then show ?case by simp
next
  case (Cons a items)
  obtain k v where a: "a = (k, v)" by (cases a)
  show ?case
    by (simp add: Cons a AList.update_conv' map_add_def fun_eq_iff split: option.splits)
qed

lemma map_of_dict_of: "map_of (dict_of items) = map_of (rev items)"
  by (simp add: dict_of_def map_of_foldl_update)

lemma distinct_foldl_update:
  "distinct (map fst acc) \<Longrightarrow> distinct (map fst (foldl (\<lambda>d (k, v). AList.update k v d) acc items))"
proof (induction items arbitrary: acc)
  case Nil
  then show ?case by simp
next
  case (Cons a items)
  obtain k v where a: "a = (k, v)" by (cases a)
  show ?case using Cons.prems by (simp add: a Cons.IH AList.distinct_update)
qed

lemma distinct_dict_of: "distinct (map fst (dict_of items))"
  by (simp add: dict_of_def distinct_foldl_update)

lemma set_missing_tables_of:
  "set (missing_tables_of E A) = dom (map_of E) - dom (map_of A)"
  by (auto simp: missing_tables_of_def dom_map_of_conv_image_fst)

lemma set_extra_tables_of:
  "set (extra_tables_of E A) = dom (map_of A) - dom (map_of E)"
  by (auto simp: extra_tables_of_def dom_map_of_conv_image_fst)

lemma in_column_diffs_of:
  "(t, mc, xc) \<in> set (column_diffs_of E A) \<longleftrightarrow>
     (\<exists>ec ac. (t, ec) \<in> set E \<and> map_of A t = Some ac
        \<and> mc = filter (\<lambda>c. c \<notin> set ac) ec \<and> xc = filter (\<lambda>c. c \<notin> set ec) ac
        \<and> (mc \<noteq> [] \<or> xc \<noteq> []))"
proof
  assume "(t, mc, xc) \<in> set (column_diffs_of E A)"
  then obtain t' ec where m: "(t', ec) \<in> set E"
    and i: "(t, mc, xc) \<in> set (case map_of A t' of None \<Rightarrow> []
              | Some act_cols \<Rightarrow>
                  let missing_cols = filter (\<lambda>c. c \<notin> set act_cols) ec;
                      extra_cols = filter (\<lambda>c. c \<notin> set ec) act_cols
                  in if missing_cols \<noteq> [] \<or> extra_cols \<noteq> [] then [(t', missing_cols, extra_cols)] else [])"
    by (auto simp: column_diffs_of_def)
  from i obtain ac where "map_of A t' = Some ac" by (cases "map_of A t'") auto
  with i m show "\<exists>ec ac. (t, ec) \<in> set E \<and> map_of A t = Some ac
        \<and> mc = filter (\<lambda>c. c \<notin> set ac) ec \<and> xc = filter (\<lambda>c. c \<notin> set ec) ac
        \<and> (mc \<noteq> [] \<or> xc \<noteq> [])"
    by (auto simp: Let_def split: if_splits)
next
  assume "\<exists>ec ac. (t, ec) \<in> set E \<and> map_of A t = Some ac
        \<and> mc = filter (\<lambda>c. c \<notin> set ac) ec \<and> xc = filter (\<lambda>c. c \<notin> set ec) ac
        \<and> (mc \<noteq> [] \<or> xc \<noteq> [])"
  then obtain ec ac where m: "(t, ec) \<in> set E" and a: "map_of A t = Some ac"
    and e: "mc = filter (\<lambda>c. c \<notin> set ac) ec" "xc = filter (\<lambda>c. c \<notin> set ec) ac" "mc \<noteq> [] \<or> xc \<noteq> []"
    by blast
  show "(t, mc, xc) \<in> set (column_diffs_of E A)"
    unfolding column_diffs_of_def set_concat set_map
    by (rule UN_I [OF imageI [OF m]]) (use a e in \<open>auto simp: Let_def\<close>)
qed

lemma filter_notin_empty: "filter (\<lambda>c. c \<notin> S) xs = [] \<longleftrightarrow> set xs \<subseteq> S"
  by (auto simp: filter_empty_conv)

lemma column_diffs_of_empty:
  "column_diffs_of E A = [] \<longleftrightarrow>
     (\<forall>t ec ac. (t, ec) \<in> set E \<and> map_of A t = Some ac \<longrightarrow> set ec = set ac)"
proof
  assume e: "column_diffs_of E A = []"
  show "\<forall>t ec ac. (t, ec) \<in> set E \<and> map_of A t = Some ac \<longrightarrow> set ec = set ac"
  proof (intro allI impI)
    fix t ec ac
    assume h: "(t, ec) \<in> set E \<and> map_of A t = Some ac"
    have "(t, filter (\<lambda>c. c \<notin> set ac) ec, filter (\<lambda>c. c \<notin> set ec) ac) \<notin> set (column_diffs_of E A)"
      by (simp add: e)
    then have "filter (\<lambda>c. c \<notin> set ac) ec = [] \<and> filter (\<lambda>c. c \<notin> set ec) ac = []"
      unfolding in_column_diffs_of using h by blast
    then show "set ec = set ac"
      by (auto simp: filter_notin_empty)
  qed
next
  assume h: "\<forall>t ec ac. (t, ec) \<in> set E \<and> map_of A t = Some ac \<longrightarrow> set ec = set ac"
  show "column_diffs_of E A = []"
  proof (cases "column_diffs_of E A")
    case Nil
    then show ?thesis .
  next
    case (Cons p ps)
    obtain t mc xc where p: "p = (t, mc, xc)" by (cases p)
    have "(t, mc, xc) \<in> set (column_diffs_of E A)" by (simp add: Cons p)
    then obtain ec ac where "(t, ec) \<in> set E" "map_of A t = Some ac"
      "mc = filter (\<lambda>c. c \<notin> set ac) ec" "xc = filter (\<lambda>c. c \<notin> set ec) ac" "mc \<noteq> [] \<or> xc \<noteq> []"
      unfolding in_column_diffs_of by blast
    moreover from this h have "set ec = set ac" by blast
    ultimately have False by (auto simp: filter_notin_empty)
    then show ?thesis ..
  qed
qed

lemma maps_match_iff:
  "(\<forall>t. map_option set (E t) = map_option set (A t)) \<longleftrightarrow>
     dom E - dom A = {} \<and> dom A - dom E = {}
     \<and> (\<forall>t ec ac. E t = Some ec \<and> A t = Some ac \<longrightarrow> set ec = set ac)"
proof
  assume h: "\<forall>t. map_option set (E t) = map_option set (A t)"
  have "dom E = dom A"
  proof (rule set_eqI)
    fix t show "t \<in> dom E \<longleftrightarrow> t \<in> dom A"
      using h [rule_format, of t] by (cases "E t"; cases "A t") auto
  qed
  moreover have "\<forall>t ec ac. E t = Some ec \<and> A t = Some ac \<longrightarrow> set ec = set ac"
  proof (intro allI impI)
    fix t ec ac
    assume "E t = Some ec \<and> A t = Some ac"
    then show "set ec = set ac" using h [rule_format, of t] by simp
  qed
  ultimately show "dom E - dom A = {} \<and> dom A - dom E = {}
     \<and> (\<forall>t ec ac. E t = Some ec \<and> A t = Some ac \<longrightarrow> set ec = set ac)" by simp
next
  assume h: "dom E - dom A = {} \<and> dom A - dom E = {}
     \<and> (\<forall>t ec ac. E t = Some ec \<and> A t = Some ac \<longrightarrow> set ec = set ac)"
  show "\<forall>t. map_option set (E t) = map_option set (A t)"
  proof
    fix t
    from h have d: "dom E = dom A" by blast
    show "map_option set (E t) = map_option set (A t)"
    proof (cases "E t")
      case None
      then have "t \<notin> dom A" using d by auto
      then show ?thesis using None by (simp add: domIff)
    next
      case (Some ec)
      then have "t \<in> dom A" using d by auto
      then obtain ac where "A t = Some ac" by auto
      then show ?thesis using Some h by simp
    qed
  qed
qed

lemma header_missing: "[Lit ''Missing tables:''] \<in> set (format_schema_diff M X C) \<longleftrightarrow> M \<noteq> []"
  by (auto simp: format_schema_diff_def)

lemma header_extra: "[Lit ''Unexpected tables:''] \<in> set (format_schema_diff M X C) \<longleftrightarrow> X \<noteq> []"
  by (auto simp: format_schema_diff_def)

lemma header_cols: "[Lit ''Column mismatches:''] \<in> set (format_schema_diff M X C) \<longleftrightarrow> C \<noteq> []"
  by (auto simp: format_schema_diff_def)

lemma validate_schema_ok_iff:
  assumes "introspect_schema rd d = Inr A"
  shows "validate_schema rd d expected = Inr () \<longleftrightarrow>
     (\<forall>t. map_option set (map_of (dict_of (map (\<lambda>t. (name t, columns t)) expected)) t)
         = map_option set (map_of A t))"
proof -
  let ?E = "dict_of (map (\<lambda>t. (name t, columns t)) expected)"
  have mem: "(t, ec) \<in> set ?E \<longleftrightarrow> map_of ?E t = Some ec" for t ec
    using distinct_dict_of [of "map (\<lambda>t. (name t, columns t)) expected"] by simp
  have m: "missing_tables_of ?E A = [] \<longleftrightarrow> dom (map_of ?E) - dom (map_of A) = {}"
    by (simp only: set_empty [symmetric] set_missing_tables_of)
  have x: "extra_tables_of ?E A = [] \<longleftrightarrow> dom (map_of A) - dom (map_of ?E) = {}"
    by (simp only: set_empty [symmetric] set_extra_tables_of)
  have c: "column_diffs_of ?E A = [] \<longleftrightarrow>
      (\<forall>t ec ac. map_of ?E t = Some ec \<and> map_of A t = Some ac \<longrightarrow> set ec = set ac)"
    unfolding column_diffs_of_empty mem ..
  have "validate_schema rd d expected = Inr () \<longleftrightarrow>
     missing_tables_of ?E A = [] \<and> extra_tables_of ?E A = [] \<and> column_diffs_of ?E A = []"
    by (simp add: validate_schema_def assms sum_bind_def Let_def)
  also have "\<dots> \<longleftrightarrow> dom (map_of ?E) - dom (map_of A) = {} \<and> dom (map_of A) - dom (map_of ?E) = {}
     \<and> (\<forall>t ec ac. map_of ?E t = Some ec \<and> map_of A t = Some ac \<longrightarrow> set ec = set ac)"
    unfolding m x c ..
  also have "\<dots> \<longleftrightarrow> (\<forall>t. map_option set (map_of ?E t) = map_option set (map_of A t))"
    by (rule maps_match_iff [symmetric])
  finally show ?thesis .
qed


lemma report_lists_missing:
  "t \<in> set M \<Longrightarrow> [Lit ''  - '', Str t] \<in> set (format_schema_diff M X C)"
  by (auto simp: format_schema_diff_def)

lemma report_lists_extra:
  "t \<in> set X \<Longrightarrow> [Lit ''  - '', Str t] \<in> set (format_schema_diff M X C)"
  by (auto simp: format_schema_diff_def)

lemma report_lists_columns:
  "(t, mc, xc) \<in> set C \<Longrightarrow>
     [Lit ''  - '', Str t, Lit '':''] \<in> set (format_schema_diff M X C)
     \<and> [Lit ''      missing: '', StrList mc] \<in> set (format_schema_diff M X C)
     \<and> [Lit ''      unexpected: '', StrList xc] \<in> set (format_schema_diff M X C)"
  by (force simp: format_schema_diff_def)

text \<open>
  When the introspection returns the tables \<open>A\<close>, with \<open>E\<close> the expected tables as the
  dict the code builds: \<^verbatim>\<open>validate_schema\<close> returns exactly when both have the same
  table names and, for each table, the same set of column names. Otherwise it raises the
  schema mismatch whose report is built from the missing tables (\<open>E\<close> without \<open>A\<close>), the
  extra tables (\<open>A\<close> without \<open>E\<close>) and, for each table in both whose column sets differ,
  its missing and unexpected columns; each of the three sections is in the report exactly
  when its list is not empty, and then lists every table of it.
\<close>

lemma validate_schema_report:
  assumes intro: "introspect_schema rd d = Inr A"
  shows "(let E = dict_of (map (\<lambda>t. (name t, columns t)) expected);
        M = missing_tables_of E A;
        X = extra_tables_of E A;
        C = column_diffs_of E A;
        report = format_schema_diff M X C
    in (validate_schema rd d expected = Inr () \<longleftrightarrow>
          (\<forall>t. map_option set (map_of E t) = map_option set (map_of A t)))
     \<and> (validate_schema rd d expected = Inr ()
          \<or> validate_schema rd d expected = Inl (schema_mismatch [Lit ''Database schema mismatch.''] report))
     \<and> set M = dom (map_of E) - dom (map_of A)
     \<and> set X = dom (map_of A) - dom (map_of E)
     \<and> (\<forall>t mc xc. (t, mc, xc) \<in> set C \<longleftrightarrow>
          (\<exists>ec ac. map_of E t = Some ec \<and> map_of A t = Some ac
             \<and> mc = filter (\<lambda>c. c \<notin> set ac) ec \<and> xc = filter (\<lambda>c. c \<notin> set ec) ac
             \<and> (mc \<noteq> [] \<or> xc \<noteq> [])))
     \<and> ([Lit ''Missing tables:''] \<in> set report \<longleftrightarrow> M \<noteq> [])
     \<and> ([Lit ''Unexpected tables:''] \<in> set report \<longleftrightarrow> X \<noteq> [])
     \<and> ([Lit ''Column mismatches:''] \<in> set report \<longleftrightarrow> C \<noteq> [])
     \<and> (\<forall>t \<in> set M. [Lit ''  - '', Str t] \<in> set report)
     \<and> (\<forall>t \<in> set X. [Lit ''  - '', Str t] \<in> set report)
     \<and> (\<forall>(t, mc, xc) \<in> set C.
          [Lit ''  - '', Str t, Lit '':''] \<in> set report
          \<and> [Lit ''      missing: '', StrList mc] \<in> set report
          \<and> [Lit ''      unexpected: '', StrList xc] \<in> set report))"
proof -
  let ?E = "dict_of (map (\<lambda>t. (name t, columns t)) expected)"
  have mem: "(t, ec) \<in> set ?E \<longleftrightarrow> map_of ?E t = Some ec" for t ec
    using distinct_dict_of [of "map (\<lambda>t. (name t, columns t)) expected"] by simp
  have r: "validate_schema rd d expected = Inr ()
     \<or> validate_schema rd d expected = Inl (schema_mismatch [Lit ''Database schema mismatch.'']
          (format_schema_diff (missing_tables_of ?E A) (extra_tables_of ?E A) (column_diffs_of ?E A)))"
    by (simp add: validate_schema_def intro sum_bind_def Let_def)
  have c: "(t, mc, xc) \<in> set (column_diffs_of ?E A) \<longleftrightarrow>
          (\<exists>ec ac. map_of ?E t = Some ec \<and> map_of A t = Some ac
             \<and> mc = filter (\<lambda>c. c \<notin> set ac) ec \<and> xc = filter (\<lambda>c. c \<notin> set ec) ac
             \<and> (mc \<noteq> [] \<or> xc \<noteq> []))" for t mc xc
    unfolding in_column_diffs_of mem ..
  have l: "\<forall>(t, mc, xc) \<in> set C.
          [Lit ''  - '', Str t, Lit '':''] \<in> set (format_schema_diff M X C)
          \<and> [Lit ''      missing: '', StrList mc] \<in> set (format_schema_diff M X C)
          \<and> [Lit ''      unexpected: '', StrList xc] \<in> set (format_schema_diff M X C)" for M X C
    using report_lists_columns [of _ _ _ C M X] by blast
  show ?thesis
    unfolding Let_def
  proof (intro conjI allI ballI)
    show "validate_schema rd d expected = Inr () \<longleftrightarrow>
        (\<forall>t. map_option set (map_of ?E t) = map_option set (map_of A t))"
      using intro by (rule validate_schema_ok_iff)
    show "validate_schema rd d expected = Inr ()
     \<or> validate_schema rd d expected = Inl (schema_mismatch [Lit ''Database schema mismatch.'']
          (format_schema_diff (missing_tables_of ?E A) (extra_tables_of ?E A) (column_diffs_of ?E A)))"
      by (rule r)
    show "set (missing_tables_of ?E A) = dom (map_of ?E) - dom (map_of A)"
      by (rule set_missing_tables_of)
    show "set (extra_tables_of ?E A) = dom (map_of A) - dom (map_of ?E)"
      by (rule set_extra_tables_of)
    show "(t, mc, xc) \<in> set (column_diffs_of ?E A) \<longleftrightarrow>
          (\<exists>ec ac. map_of ?E t = Some ec \<and> map_of A t = Some ac
             \<and> mc = filter (\<lambda>c. c \<notin> set ac) ec \<and> xc = filter (\<lambda>c. c \<notin> set ec) ac
             \<and> (mc \<noteq> [] \<or> xc \<noteq> []))" for t mc xc
      by (rule c)
    show "[Lit ''Missing tables:''] \<in> set (format_schema_diff (missing_tables_of ?E A)
            (extra_tables_of ?E A) (column_diffs_of ?E A)) \<longleftrightarrow> missing_tables_of ?E A \<noteq> []"
      by (rule header_missing)
    show "[Lit ''Unexpected tables:''] \<in> set (format_schema_diff (missing_tables_of ?E A)
            (extra_tables_of ?E A) (column_diffs_of ?E A)) \<longleftrightarrow> extra_tables_of ?E A \<noteq> []"
      by (rule header_extra)
    show "[Lit ''Column mismatches:''] \<in> set (format_schema_diff (missing_tables_of ?E A)
            (extra_tables_of ?E A) (column_diffs_of ?E A)) \<longleftrightarrow> column_diffs_of ?E A \<noteq> []"
      by (rule header_cols)
    show "[Lit ''  - '', Str t] \<in> set (format_schema_diff (missing_tables_of ?E A)
            (extra_tables_of ?E A) (column_diffs_of ?E A))"
      if "t \<in> set (missing_tables_of ?E A)" for t
      using that by (rule report_lists_missing)
    show "[Lit ''  - '', Str t] \<in> set (format_schema_diff (missing_tables_of ?E A)
            (extra_tables_of ?E A) (column_diffs_of ?E A))"
      if "t \<in> set (extra_tables_of ?E A)" for t
      using that by (rule report_lists_extra)
    show "case p of (t, mc, xc) \<Rightarrow>
          [Lit ''  - '', Str t, Lit '':''] \<in> set (format_schema_diff (missing_tables_of ?E A)
            (extra_tables_of ?E A) (column_diffs_of ?E A))
          \<and> [Lit ''      missing: '', StrList mc] \<in> set (format_schema_diff (missing_tables_of ?E A)
            (extra_tables_of ?E A) (column_diffs_of ?E A))
          \<and> [Lit ''      unexpected: '', StrList xc] \<in> set (format_schema_diff (missing_tables_of ?E A)
            (extra_tables_of ?E A) (column_diffs_of ?E A))"
      if "p \<in> set (column_diffs_of ?E A)" for p
      using that l [of "column_diffs_of ?E A" "missing_tables_of ?E A" "extra_tables_of ?E A"]
      by blast
  qed
qed

text \<open>
  The introspection returns when every table name that the \<^verbatim>\<open>LIKE\<close> filter lets through
  is a plain name, and then it returns those tables with their columns.
\<close>

lemma table_infos_plain:
  assumes "\<forall>t \<in> set ts. plain_name t"
  shows "table_infos rd d ts = Inr (map (\<lambda>t. (t, table_columns d t)) ts)"
  using assms by (induction ts) (simp_all add: table_info_def sum_bind_def)

lemma map_of_keyed:
  "map_of (map (\<lambda>t. (t, g t)) ts) t = (if t \<in> set ts then Some (g t) else None)"
  by (induction ts) auto

lemma introspect_schema_plain:
  assumes "\<forall>t \<in> set (map fst (tables d)). \<not> like_sqlite t \<longrightarrow> plain_name t"
  shows "\<exists>A. introspect_schema rd d = Inr A
           \<and> (\<forall>t. map_of A t = (if like_sqlite t then None else map_of (tables d) t))"
proof -
  let ?ns = "sort (filter (\<lambda>t. \<not> like_sqlite t) (map fst (tables d)))"
  let ?A = "dict_of (map (\<lambda>t. (t, table_columns d t)) ?ns)"
  have "\<forall>t \<in> set ?ns. plain_name t" using assms by auto
  then have ti: "table_infos rd d ?ns = Inr (map (\<lambda>t. (t, table_columns d t)) ?ns)"
    by (rule table_infos_plain)
  have i: "introspect_schema rd d = Inr ?A"
    by (simp add: introspect_schema_def ti sum_bind_def)
  have m: "map_of ?A t = (if like_sqlite t then None else map_of (tables d) t)" for t
  proof -
    have "map_of ?A t = map_of (map (\<lambda>t. (t, table_columns d t)) (rev ?ns)) t"
      by (simp add: map_of_dict_of rev_map)
    also have "\<dots> = (if t \<in> set ?ns then Some (table_columns d t) else None)"
      by (simp add: map_of_keyed)
    also have "\<dots> = (if like_sqlite t then None else map_of (tables d) t)"
    proof (cases "map_of (tables d) t")
      case None
      then have "t \<notin> fst ` set (tables d)" by (simp add: map_of_eq_None_iff)
      then show ?thesis using None by auto
    next
      case (Some cols)
      then have "t \<in> fst ` set (tables d)" by (metis map_of_eq_None_iff option.distinct(1))
      then show ?thesis using Some by (auto simp: table_columns_def)
    qed
    finally show ?thesis .
  qed
  show ?thesis using i m by blast
qed

text \<open>
  C4. A database with the tables \<^verbatim>\<open>schema_meta(key, value)\<close> and
  \<^verbatim>\<open>"order"(order_id, paper_id)\<close> and an expected schema that lists exactly these tables
  and columns: nothing is missing, extra or different, and \<^verbatim>\<open>validate_schema\<close> raises
  SQLite's syntax error, because \<^verbatim>\<open>order\<close> reaches \<^verbatim>\<open>PRAGMA table_info\<close> unquoted.
  And a database that has, beside the expected tables, the table \<^verbatim>\<open>sqlitexnotes\<close>:
  the \<^verbatim>\<open>LIKE\<close> filter drops it as if it were a system table, and \<^verbatim>\<open>validate_schema\<close>
  returns although the table is unexpected.
\<close>

theorem validate_schema_unquoted_name_raises:
  "map (\<lambda>t. (name t, columns t)) ex_expected_order = tables ex_db_order
   \<and> validate_schema (table_info_other ex_env) ex_db_order ex_expected_order
       = Inl (syntax_error ''order'')
   \<and> cls (syntax_error ''order'') = SqliteError
   \<and> ''sqlitexnotes'' \<in> set (map fst (tables ex_db_sqlitex))
   \<and> ''sqlitexnotes'' \<notin> set (map name ex_expected)
   \<and> validate_schema (table_info_other ex_env) ex_db_sqlitex ex_expected = Inr ()"
proof -
  have a: "map (\<lambda>t. (name t, columns t)) ex_expected_order = tables ex_db_order"
    by code_simp
  have b: "validate_schema (table_info_other ex_env) ex_db_order ex_expected_order
       = Inl (syntax_error ''order'')"
    by code_simp
  have c: "cls (syntax_error ''order'') = SqliteError"
    by (simp add: syntax_error_def)
  have d: "''sqlitexnotes'' \<in> set (map fst (tables ex_db_sqlitex))"
    by code_simp
  have e: "''sqlitexnotes'' \<notin> set (map name ex_expected)"
    by code_simp
  have f: "validate_schema (table_info_other ex_env) ex_db_sqlitex ex_expected = Inr ()"
    by code_simp
  show ?thesis using a b c d e f by (intro conjI)
qed

theorem validate_schema_unquoted_name_raises_witness:
  "validate_schema (table_info_other ex_env) ex_db_order ex_expected_order \<noteq> Inr ()
   \<and> (\<forall>msg diff. validate_schema (table_info_other ex_env) ex_db_order ex_expected_order
          \<noteq> Inl (schema_mismatch msg diff))"
proof -
  note r = validate_schema_unquoted_name_raises [THEN conjunct2, THEN conjunct1]
  show ?thesis unfolding r by (simp add: syntax_error_def schema_mismatch_def)
qed

section \<open>Listing projects\<close>

lemma json_get_eq_str:
  "(case map_of kvs k of Some JNull \<Rightarrow> None | r \<Rightarrow> r) = Some (JStr s) \<longleftrightarrow> map_of kvs k = Some (JStr s)"
  by (auto split: option.splits json.splits)

lemma try_summary_not_obj:
  "load_json ev (SiteRead [d, ''manifest.json'']) (Some n) [''manifest.json''] = Inr m \<Longrightarrow>
   (\<forall>kvs. m \<noteq> JObj kvs) \<Longrightarrow> \<exists>e. try_summary ev d n = Inl e"
  by (cases m) (auto simp: try_summary_def sum_bind_def json_get_def)

lemma try_summary_load_fail:
  "load_json ev (SiteRead [d, ''manifest.json'']) (Some n) [''manifest.json''] = Inl e \<Longrightarrow>
   try_summary ev d n = Inl e"
  by (simp add: try_summary_def sum_bind_def)

lemma try_summary_obj:
  assumes "load_json ev (SiteRead [d, ''manifest.json'']) (Some n) [''manifest.json''] = Inr (JObj kvs)"
  shows "try_summary ev d n =
     (if map_of kvs ''version'' \<noteq> Some (JStr ''v1'') then
        Inl (Exn ValueError [Lit ''Unsupported version: '',
               ReprJson (case map_of kvs ''version'' of Some JNull \<Rightarrow> None | r \<Rightarrow> r)] [] None)
      else if map_of kvs ''project_id'' \<noteq> Some (JStr d) then
        Inl (Exn ValueError [Lit ''project_id mismatch''] [] None)
      else case map_of kvs ''project_name'' of
        None \<Rightarrow> Inl (Exn KeyError [Repr ''project_name''] [] None)
      | Some pn \<Rightarrow> (case map_of kvs ''created_at'' of
          None \<Rightarrow> Inl (Exn KeyError [Repr ''created_at''] [] None)
        | Some ca \<Rightarrow> (case map_of kvs ''topic_prompt'' of
            None \<Rightarrow> Inl (Exn KeyError [Repr ''topic_prompt''] [] None)
          | Some tp \<Rightarrow>
              Inr \<lparr>sum_project_id = JStr d, sum_project_name = pn, sum_project_dir = d,
                   sum_created_at = ca, sum_topic_prompt = tp, valid = True, error = None\<rparr>)))"
  using assms
  by (simp add: try_summary_def sum_bind_def json_get_def json_item_def json_get_eq_str
      split: option.splits)

lemma try_summary_valid_iff:
  "(\<exists>r. try_summary ev d n = Inr r) \<longleftrightarrow> spec_manifest_valid ev d n"
proof (cases "load_json ev (SiteRead [d, ''manifest.json'']) (Some n) [''manifest.json'']")
  case (Inl e)
  then show ?thesis
    by (simp add: try_summary_load_fail spec_manifest_valid_def)
next
  case (Inr m)
  show ?thesis
  proof (cases "\<exists>kvs. m = JObj kvs")
    case True
    then obtain kvs where m: "m = JObj kvs" by blast
    show ?thesis
      using Inr
      by (simp add: m try_summary_obj [OF Inr [unfolded m]] spec_manifest_valid_def split: option.splits)
  next
    case False
    then have "\<exists>e. try_summary ev d n = Inl e" using try_summary_not_obj [OF Inr] by blast
    moreover have "\<not> spec_manifest_valid ev d n"
      using False Inr by (cases m) (auto simp: spec_manifest_valid_def)
    ultimately show ?thesis by auto
  qed
qed

lemma try_summary_Inr_fields:
  assumes "try_summary ev d n = Inr r"
  shows "valid r \<and> error r = None \<and> sum_project_id r = JStr d \<and> sum_project_dir r = d
    \<and> (\<exists>kvs. load_json ev (SiteRead [d, ''manifest.json'']) (Some n) [''manifest.json''] = Inr (JObj kvs)
         \<and> map_of kvs ''project_name'' = Some (sum_project_name r)
         \<and> map_of kvs ''created_at'' = Some (sum_created_at r)
         \<and> map_of kvs ''topic_prompt'' = Some (sum_topic_prompt r))"
proof (cases "load_json ev (SiteRead [d, ''manifest.json'']) (Some n) [''manifest.json'']")
  case (Inl e)
  then show ?thesis using assms by (simp add: try_summary_load_fail)
next
  case (Inr m)
  show ?thesis
  proof (cases "\<exists>kvs. m = JObj kvs")
    case True
    then obtain kvs where m: "m = JObj kvs" by blast
    show ?thesis
      using assms Inr unfolding m try_summary_obj [OF Inr [unfolded m]]
      by (auto split: if_splits option.splits)
  next
    case False
    then show ?thesis using try_summary_not_obj [OF Inr] assms by auto
  qed
qed

lemma summarize_in_list:
  assumes "(d, n) \<in> set es" "is_dir n"
  shows "\<exists>out. list_projects ev (Some (Dir es)) = Inr out \<and> set (summarize ev (d, n)) \<subseteq> set out"
  using assms by (auto simp: list_projects_def)

text \<open>
  C7, as stated, at a directory \<open>p\<close> whose manifest parses, declares version v1 and the
  id \<open>p\<close>, and has no \<open>project_name\<close>: the summary is flagged invalid.
\<close>

theorem list_projects_missing_field_counterexample:
  "list_projects ex_env (Some (Dir [(''p'', Dir [(''manifest.json'',
      File [JsonDump (JObj [(''version'', JStr ''v1''), (''project_id'', JStr ''p'')])])])]))
   = Inr [\<lparr>sum_project_id = JStr ''p'', sum_project_name = JStr ''(unknown)'',
            sum_project_dir = ''p'', sum_created_at = JStr [], sum_topic_prompt = JStr [],
            valid = False, error = Some [Repr ''project_name'']\<rparr>]"
  by (simp add: list_projects_def summarize_def try_summary_def sum_bind_def load_json_def
      read_text_def json_loads_def json_get_def json_item_def invalid_summary_def ex_env_def
      is_dir_def exists_def)

text \<open>
  C7, amended. For a base directory that is a directory, \<^verbatim>\<open>list_projects\<close> returns, and
  every subdirectory with a manifest file yields one summary. The summary is valid exactly
  when the manifest loads as a JSON object that declares version v1, has the directory's
  name as its id and has the fields \<open>project_name\<close>, \<open>created_at\<close> and \<open>topic_prompt\<close>;
  it then carries these fields and no error. In every other case the summary is invalid,
  with the directory name as id, the placeholder fields and an error text.
\<close>

theorem list_projects_entry:
  assumes "(d, n) \<in> set es" and "is_dir n" and "exists (Some n) [''manifest.json'']"
  shows "\<exists>out r. list_projects ev (Some (Dir es)) = Inr out \<and> r \<in> set out
     \<and> summarize ev (d, n) = [r]
     \<and> (valid r \<longleftrightarrow> spec_manifest_valid ev d n)
     \<and> (valid r \<longrightarrow> error r = None \<and> sum_project_id r = JStr d \<and> sum_project_dir r = d
          \<and> (\<exists>kvs. load_json ev (SiteRead [d, ''manifest.json'']) (Some n) [''manifest.json''] = Inr (JObj kvs)
               \<and> map_of kvs ''project_name'' = Some (sum_project_name r)
               \<and> map_of kvs ''created_at'' = Some (sum_created_at r)
               \<and> map_of kvs ''topic_prompt'' = Some (sum_topic_prompt r)))
     \<and> (\<not> valid r \<longrightarrow> (\<exists>msg. r = \<lparr>sum_project_id = JStr d, sum_project_name = JStr ''(unknown)'',
            sum_project_dir = d, sum_created_at = JStr [], sum_topic_prompt = JStr [],
            valid = False, error = Some msg\<rparr>))"
proof -
  obtain out where out: "list_projects ev (Some (Dir es)) = Inr out"
    and sub: "set (summarize ev (d, n)) \<subseteq> set out"
    using summarize_in_list [OF assms(1,2)] by blast
  show ?thesis
  proof (cases "try_summary ev d n")
    case (Inl e)
    have s: "summarize ev (d, n) = [invalid_summary d e]"
      using assms(3) Inl by (simp add: summarize_def)
    have nv: "\<not> spec_manifest_valid ev d n"
      using Inl try_summary_valid_iff [of ev d n] by auto
    show ?thesis
      using out sub s nv by (auto simp: invalid_summary_def)
  next
    case (Inr r)
    have s: "summarize ev (d, n) = [r]"
      using assms(3) Inr by (simp add: summarize_def)
    have v: "spec_manifest_valid ev d n"
      using Inr try_summary_valid_iff [of ev d n] by auto
    show ?thesis
      using out sub s v try_summary_Inr_fields [OF Inr] by auto
  qed
qed

theorem list_projects_entry_witness:
  "list_projects ex_env (Some (Dir [(''p'', Dir [(''manifest.json'', File [RawText ''{not valid json''])])]))
     = Inr [\<lparr>sum_project_id = JStr ''p'', sum_project_name = JStr ''(unknown)'',
              sum_project_dir = ''p'', sum_created_at = JStr [], sum_topic_prompt = JStr [],
              valid = False, error = Some [LibText ''json.JSONDecodeError'']\<rparr>]"
  using list_projects_entry [of "''p''" "Dir [(''manifest.json'', File [RawText ''{not valid json''])]"
      "[(''p'', Dir [(''manifest.json'', File [RawText ''{not valid json''])])]" ex_env]
  by (simp add: list_projects_def summarize_def try_summary_def sum_bind_def load_json_def
      read_text_def json_loads_def invalid_summary_def ex_env_def is_dir_def exists_def)

section \<open>Frames of the filesystem operations\<close>

lemma lookup_None [simp]: "lookup None p = None"
  by (cases p) simp_all

lemma put_None_Cons [simp]: "put None (a # q) v = None"
  by simp

lemma lookup_put_other:
  assumes "put f (a # q) v = Some n'" and "n \<noteq> a"
  shows "lookup (Some n') (n # r) = lookup f (n # r)"
proof (cases f)
  case None
  then show ?thesis using assms by simp
next
  case (Some nd)
  show ?thesis
  proof (cases nd)
    case (Dir es)
    then show ?thesis using assms Some
      by (auto simp: AList.update_conv' split: option.splits)
  qed (use assms Some in simp_all)
qed

lemma lookup_mkdir_p_other:
  assumes "mkdir_p f (a # q) = Inr n'" and "n \<noteq> a"
  shows "lookup (Some n') (n # r) = lookup f (n # r)"
proof (cases f)
  case None
  then show ?thesis using assms by (auto split: sum.splits)
next
  case (Some nd)
  show ?thesis
  proof (cases nd)
    case (Dir es)
    then show ?thesis using assms Some
      by (auto simp: AList.update_conv' split: sum.splits)
  qed (use assms Some in simp_all)
qed

lemma lookup_mkdir_p_base:
  assumes "mkdir_p f [] = Inr n'"
  shows "lookup (Some n') (n # r) = lookup f (n # r)"
proof (cases f)
  case None
  then show ?thesis using assms by auto
next
  case (Some nd)
  then show ?thesis using assms by (cases nd) auto
qed

lemma put_case_Inr [simp]:
  "((case put f p v of None \<Rightarrow> Inl e | Some n \<Rightarrow> Inr (Some n)) = Inr f')
     = (\<exists>n. put f p v = Some n \<and> f' = Some n)"
  by (cases "put f p v") auto

lemma mkdir_p_case_Inr [simp]:
  "((case mkdir_p f p of Inl e \<Rightarrow> Inl e | Inr n \<Rightarrow> Inr (Some n)) = Inr f')
     = (\<exists>n. mkdir_p f p = Inr n \<and> f' = Some n)"
  by (cases "mkdir_p f p") auto

lemma mkdir_other:
  assumes "mkdir f (a # q) par ex = Inr f'" and "n \<noteq> a"
  shows "lookup f' (n # r) = lookup f (n # r)"
proof (cases "lookup f (a # q)")
  case None
  then show ?thesis using assms
    by (cases par) (auto simp: mkdir_def lookup_put_other lookup_mkdir_p_other)
next
  case (Some nd)
  then show ?thesis using assms
    by (cases nd) (auto simp: mkdir_def split: if_splits)
qed

lemma mkdir_base:
  assumes "mkdir f [] par ex = Inr f'"
  shows "lookup f' (n # r) = lookup f (n # r)"
proof (cases f)
  case None
  then show ?thesis using assms
    by (cases par) (auto simp: mkdir_def)
next
  case (Some nd)
  then show ?thesis using assms
    by (cases nd) (auto simp: mkdir_def split: if_splits)
qed

lemma append_text_other:
  assumes "append_text f (a # q) c = Inr f'" and "n \<noteq> a"
  shows "lookup f' (n # r) = lookup f (n # r)"
proof (cases "lookup f (a # q)")
  case None
  then show ?thesis using assms by (auto simp: append_text_def lookup_put_other)
next
  case (Some nd)
  then show ?thesis using assms
    by (cases nd) (auto simp: append_text_def lookup_put_other)
qed

lemma write_text_other:
  assumes "write_text f (a # q) c = Inr f'" and "n \<noteq> a"
  shows "lookup f' (n # r) = lookup f (n # r)"
proof (cases "lookup f (a # q)")
  case None
  then show ?thesis using assms by (auto simp: write_text_def lookup_put_other)
next
  case (Some nd)
  then show ?thesis using assms
    by (cases nd) (auto simp: write_text_def lookup_put_other)
qed

lemma sqlite_connect_other:
  assumes "sqlite_connect f (a # q) = Inr f'" and "n \<noteq> a"
  shows "lookup f' (n # r) = lookup f (n # r)"
proof (cases "lookup f (a # q)")
  case None
  then show ?thesis using assms by (auto simp: sqlite_connect_def lookup_put_other)
next
  case (Some nd)
  then show ?thesis using assms
    by (cases nd) (auto simp: sqlite_connect_def)
qed

lemma rmtree_other:
  assumes "rmtree f a = Inr f'" and "n \<noteq> a"
  shows "lookup f' (n # r) = lookup f (n # r)"
  using assms
  by (auto simp: rmtree_def AList.delete_conv' split: option.splits node.splits)

lemma rmtree_gone:
  assumes "rmtree f a = Inr f'"
  shows "lookup f' (a # r) = None"
  using assms
  by (auto simp: rmtree_def AList.delete_conv' split: option.splits node.splits)

lemma rename_other:
  assumes "rename f a b = Inr f'" and "n \<noteq> a" and "n \<noteq> b"
  shows "lookup f' (n # r) = lookup f (n # r)"
  using assms
  by (auto simp: rename_def AList.delete_conv' AList.update_conv'
      split: option.splits node.splits if_splits)

lemma evolves_refl: "evolves S s s"
  by (simp add: evolves_def)

lemma evolves_conn: "evolves S s (s\<lparr>conn_open := b\<rparr>)"
  by (simp add: evolves_def)

lemma evolves_frame: "evolves S s s' \<Longrightarrow> n \<notin> S \<Longrightarrow> lookup (fs_now s') [n] = lookup (fs_now s) [n]"
  by (auto simp: evolves_def split: if_splits)

lemma evolves_trans:
  assumes "evolves S s s1" and "evolves S s1 s2"
  shows "evolves S s s2"
proof -
  from assms(1) obtain hs1 where h1: "history s1 = history s @ hs1"
    and f1: "\<forall>h \<in> set hs1. \<forall>n. n \<notin> S \<longrightarrow> lookup h [n] = lookup (fs_now s) [n]"
    and l1: "fs_now s1 = last (fs_now s # hs1)"
    by (auto simp: evolves_def)
  from assms(2) obtain hs2 where h2: "history s2 = history s1 @ hs2"
    and f2: "\<forall>h \<in> set hs2. \<forall>n. n \<notin> S \<longrightarrow> lookup h [n] = lookup (fs_now s1) [n]"
    and l2: "fs_now s2 = last (fs_now s1 # hs2)"
    by (auto simp: evolves_def)
  have fr: "\<forall>n. n \<notin> S \<longrightarrow> lookup (fs_now s1) [n] = lookup (fs_now s) [n]"
    using evolves_frame [OF assms(1)] by blast
  have "history s2 = history s @ (hs1 @ hs2)" using h1 h2 by simp
  moreover have "\<forall>h \<in> set (hs1 @ hs2). \<forall>n. n \<notin> S \<longrightarrow> lookup h [n] = lookup (fs_now s) [n]"
    using f1 f2 fr by auto
  moreover have "fs_now s2 = last (fs_now s # (hs1 @ hs2))"
    using l1 l2 by (cases hs2) auto
  ultimately show ?thesis unfolding evolves_def by blast
qed

lemma evolves_set_fs:
  assumes "\<And>n. n \<notin> S \<Longrightarrow> lookup f' [n] = lookup (fs_now s) [n]"
  shows "evolves S s (set_fs f' s)"
  unfolding evolves_def set_fs_def
  by (rule exI [of _ "[f']"]) (simp add: assms)

lemma confined_fs_step:
  assumes "\<And>f f' n. op f = Inr f' \<Longrightarrow> n \<notin> S \<Longrightarrow> lookup f' [n] = lookup f [n]"
  shows "confined S (fs_step ev site op)"
  unfolding confined_def
proof (intro allI impI)
  fix s e s'
  assume h: "fs_step ev site op s = (e, s')"
  show "evolves S s s'"
  proof (cases "fails ev site")
    case True
    then show ?thesis using h by (simp add: fs_step_def evolves_refl)
  next
    case False
    show ?thesis
    proof (cases "op (fs_now s)")
      case (Inl x)
      then show ?thesis using h False by (simp add: fs_step_def evolves_refl)
    next
      case (Inr f')
      then have "s' = set_fs f' s" using h False by (simp add: fs_step_def)
      then show ?thesis using evolves_set_fs [of S f' s] assms [OF Inr] by simp
    qed
  qed
qed

lemma confined_check_step: "confined S (check_step chk)"
  by (simp add: confined_def check_step_def evolves_refl)

lemma confined_close_step: "confined S (close_step ev)"
  unfolding confined_def
proof (intro allI impI)
  fix s e s'
  assume "close_step ev s = (e, s')"
  then have "s' = s \<or> s' = s\<lparr>conn_open := False\<rparr>"
    by (simp add: close_step_def split: if_splits)
  then show "evolves S s s'" using evolves_refl evolves_conn by (elim disjE) simp_all
qed

lemma confined_connect_step:
  assumes "a \<in> S"
  shows "confined S (connect_step ev (a # q))"
proof -
  have c: "confined S (fs_step ev (SiteConnect (a # q)) (\<lambda>f. sqlite_connect f (a # q)))"
  proof (rule confined_fs_step)
    fix f f' n
    assume "sqlite_connect f (a # q) = Inr f'" "n \<notin> S"
    then show "lookup f' [n] = lookup f [n]"
      using assms sqlite_connect_other [of f a q f' n "[]"] by auto
  qed
  show ?thesis
    unfolding confined_def
  proof (intro allI impI)
    fix s e s'
    assume h: "connect_step ev (a # q) s = (e, s')"
    obtain e1 s1 where r: "fs_step ev (SiteConnect (a # q)) (\<lambda>f. sqlite_connect f (a # q)) s = (e1, s1)"
      by (cases "fs_step ev (SiteConnect (a # q)) (\<lambda>f. sqlite_connect f (a # q)) s")
    then have e1: "evolves S s s1" using c by (simp add: confined_def)
    have "s' = s1 \<or> s' = s1\<lparr>conn_open := True\<rparr>"
      using h r by (cases e1) (simp_all add: connect_step_def)
    then show "evolves S s s'"
    proof
      assume "s' = s1" then show ?thesis using e1 by simp
    next
      assume "s' = s1\<lparr>conn_open := True\<rparr>"
      then show ?thesis using evolves_trans [OF e1 evolves_conn] by simp
    qed
  qed
qed

lemma confined_db_step:
  assumes "a \<in> S"
  shows "confined S (db_step ev site (a # q) op)"
  unfolding confined_def
proof (intro allI impI)
  fix s e s'
  assume h: "db_step ev site (a # q) op s = (e, s')"
  show "evolves S s s'"
  proof (cases "fails ev site")
    case True
    then show ?thesis using h by (simp add: db_step_def evolves_refl)
  next
    case False
    show ?thesis
    proof (cases "read_db (fs_now s) (a # q)")
      case (Inl x)
      then show ?thesis using h False by (simp add: db_step_def evolves_refl)
    next
      case (Inr d)
      obtain r d' where o: "op d = (r, d')" by (cases "op d")
      show ?thesis
      proof (cases "put (fs_now s) (a # q) (DbFile d')")
        case None
        then show ?thesis using h False Inr o by (simp add: db_step_def evolves_refl)
      next
        case (Some n')
        then have s': "s' = set_fs (Some n') s" using h False Inr o by (simp add: db_step_def)
        have "lookup (Some n') [n] = lookup (fs_now s) [n]" if "n \<notin> S" for n
          using lookup_put_other [OF Some, of n "[]"] that assms by auto
        then show ?thesis unfolding s' by (rule evolves_set_fs)
      qed
    qed
  qed
qed

lemma confined_write_text_line:
  assumes "a \<in> S"
  shows "confined S (write_text_line ev site (a # q) c)"
  unfolding write_text_line_def
proof (rule confined_fs_step)
  fix f f' n
  assume h: "(case mkdir f (butlast (a # q)) True True of Inl e \<Rightarrow> Inl e
               | Inr f'' \<Rightarrow> append_text f'' (a # q) c) = Inr f'"
    and n: "n \<notin> S"
  then obtain f1 where m: "mkdir f (butlast (a # q)) True True = Inr f1"
    and ap: "append_text f1 (a # q) c = Inr f'"
    by (auto split: sum.splits)
  have na: "n \<noteq> a" using n assms by auto
  have "lookup f1 [n] = lookup f [n]"
    using m na by (cases q) (auto dest: mkdir_base mkdir_other)
  moreover have "lookup f' [n] = lookup f1 [n]"
    using append_text_other [OF ap na] .
  ultimately show "lookup f' [n] = lookup f [n]" by simp
qed

lemma confined_log_event:
  assumes "a \<in> S"
  shows "confined S (log_event ev (a # q) level event msg)"
  unfolding log_event_def by (rule confined_write_text_line [OF assms])

lemma confined_run:
  assumes "\<forall>c \<in> set cs. confined S c"
  shows "confined S (run cs)"
  using assms
proof (induction cs)
  case Nil
  then show ?case by (simp add: confined_def evolves_refl)
next
  case (Cons c cs)
  have c: "confined S c" and r: "confined S (run cs)" using Cons by auto
  show ?case
    unfolding confined_def
  proof (intro allI impI)
    fix s e s'
    assume h: "run (c # cs) s = (e, s')"
    obtain e1 s1 where c1: "c s = (e1, s1)" by (cases "c s")
    have ev1: "evolves S s s1" using c c1 by (simp add: confined_def)
    show "evolves S s s'"
    proof (cases e1)
      case None
      then have "run cs s1 = (e, s')" using h c1 by simp
      then have "evolves S s1 s'" using r by (simp add: confined_def)
      then show ?thesis using ev1 by (rule evolves_trans [rotated])
    next
      case (Some x)
      then have "s' = s1" using h c1 by simp
      then show ?thesis using ev1 by simp
    qed
  qed
qed


section \<open>The workspace that the staging steps build\<close>

lemma lookup_in_base [simp]: "lookup (Some (in_base es a X)) (a # q) = lookup (Some X) q"
  by (simp add: in_base_def AList.update_conv')

lemma lookup_in_base_other [simp]:
  "n \<noteq> a \<Longrightarrow> lookup (Some (in_base es a X)) (n # q) = lookup (map_of es n) q"
  by (simp add: in_base_def AList.update_conv')

lemma put_in_base [simp]:
  "put (Some (in_base es a X)) (a # q) v =
     (case put (Some X) q v of None \<Rightarrow> None | Some c \<Rightarrow> Some (in_base es a c))"
  by (simp add: in_base_def AList.update_conv' split: option.splits)

lemma in_base_inject [simp]: "in_base es a X = in_base es a Y \<longleftrightarrow> X = Y"
  by (auto simp: in_base_def dest: AList.update_eqD)

lemma fs_step_None:
  "fs_step ev site op s = (None, s') \<longleftrightarrow>
     \<not> fails ev site \<and> (\<exists>f'. op (fs_now s) = Inr f' \<and> s' = set_fs f' s)"
  by (auto simp: fs_step_def split: sum.splits)

lemma check_step_None: "check_step chk s = (None, s') \<longleftrightarrow> chk (fs_now s) = None \<and> s' = s"
  by (auto simp: check_step_def)

lemma run_Cons_None:
  "run (c # cs) s = (None, s') \<longleftrightarrow> (\<exists>s1. c s = (None, s1) \<and> run cs s1 = (None, s'))"
  by (auto split: prod.splits option.splits)

lemma run_Nil_None: "run [] s = (None, s') \<longleftrightarrow> s' = s"
  by auto

lemma fs_now_set_fs [simp]: "fs_now (set_fs f s) = f"
  by (simp add: set_fs_def)

lemma conn_open_set_fs [simp]: "conn_open (set_fs f s) = conn_open s"
  by (simp add: set_fs_def)

lemma base_mkdir_Inr:
  "mkdir f [] True True = Inr f' \<longleftrightarrow>
     (f = None \<and> f' = Some (Dir [])) \<or> (\<exists>es. f = Some (Dir es) \<and> f' = f)"
proof (cases f)
  case None
  then show ?thesis by (auto simp: mkdir_def)
next
  case (Some nd)
  then show ?thesis by (cases nd) (auto simp: mkdir_def)
qed

lemma staging_mkdir_Inr:
  "mkdir (Some (Dir es)) [a] True False = Inr f' \<longleftrightarrow>
     map_of es a = None \<and> f' = Some (in_base es a (Dir []))"
  by (auto simp: mkdir_def in_base_def split: option.splits node.splits)

lemma sub_mkdir_Inr:
  "mkdir (Some (in_base es a (Dir E))) [a, sub] False False = Inr f' \<longleftrightarrow>
     map_of E sub = None \<and> f' = Some (in_base es a (Dir (AList.update sub (Dir []) E)))"
  by (auto simp: mkdir_def split: option.splits node.splits)

lemma write_text_line_None:
  "write_text_line ev site p c s = (None, s') \<longleftrightarrow>
     \<not> fails ev site \<and>
     (\<exists>f1 f'. mkdir (fs_now s) (butlast p) True True = Inr f1 \<and> append_text f1 p c = Inr f'
        \<and> s' = set_fs f' s)"
  by (auto simp: write_text_line_def fs_step_None split: sum.splits)

lemma db_step_None:
  "db_step ev site p op s = (None, s') \<longleftrightarrow>
     \<not> fails ev site \<and>
     (\<exists>d d' n. read_db (fs_now s) p = Inr d \<and> op d = (None, d')
        \<and> put (fs_now s) p (DbFile d') = Some n \<and> s' = set_fs (Some n) s)"
  by (auto simp: db_step_def split: sum.splits prod.splits option.splits)

lemma connect_step_None:
  "connect_step ev p s = (None, s') \<longleftrightarrow>
     \<not> fails ev (SiteConnect p) \<and>
     (\<exists>f'. sqlite_connect (fs_now s) p = Inr f' \<and> s' = (set_fs f' s)\<lparr>conn_open := True\<rparr>)"
  by (auto simp: connect_step_def fs_step_def split: sum.splits prod.splits option.splits if_splits)

lemma close_step_None:
  "close_step ev s = (None, s') \<longleftrightarrow> \<not> fails ev SiteClose \<and> s' = s\<lparr>conn_open := False\<rparr>"
  by (auto simp: close_step_def)

lemma db_check_None:
  "db_check ev site f p chk = None \<longleftrightarrow>
     \<not> fails ev site \<and> (\<exists>d. read_db f p = Inr d \<and> chk d = Inr ())"
  by (auto simp: db_check_def split: sum.splits)

lemma upsert_case_None:
  "(case upsert_schema_meta v h d of Inl e \<Rightarrow> (Some e, d) | Inr d' \<Rightarrow> (None, d')) = (None, d2)
     \<longleftrightarrow> upsert_schema_meta v h d = Inr d2"
  by (auto split: sum.splits)

lemma staging_built:
  assumes "run (staging_steps ev cfg ex sql) s = (None, s')"
  shows "\<exists>es d cs. (fs_now s = None \<and> es = [] \<or> fs_now s = Some (Dir es))
      \<and> map_of es (staging_dir_of ev cfg) = None
      \<and> fs_now s' = Some (in_base es (staging_dir_of ev cfg)
           (workspace_node cs d (manifest_dict cfg (project_id_of ev cfg) (now_iso ev))))
      \<and> verify_schema_meta ''v1'' (compute_schema_hash ev sql) d = Inr ()
      \<and> validate_schema (table_info_other ev) d ex = Inr ()
      \<and> conn_open s' = False"
  using assms
  unfolding workspace_node_def
  apply (simp only: staging_steps_def Let_def ensure_staging_tree_def subfolders_def list.map
      append.simps run_Cons_None run_Nil_None)
  apply (clarsimp simp: fs_step_None base_mkdir_Inr)
  apply (elim disjE; clarsimp simp: staging_mkdir_Inr sub_mkdir_Inr)
   apply (clarsimp simp: log_event_def write_text_line_None mkdir_def append_text_def
      connect_step_None sqlite_connect_def apply_canonical_schema_def upsert_step_def
      db_step_None read_db_def verify_step_def validate_step_def check_step_None db_check_None
      close_step_None fs_step_None write_text_def upsert_case_None)
  apply (clarsimp simp: log_event_def write_text_line_None mkdir_def append_text_def
      connect_step_None sqlite_connect_def apply_canonical_schema_def upsert_step_def
      db_step_None read_db_def verify_step_def validate_step_def check_step_None db_check_None
      close_step_None fs_step_None write_text_def upsert_case_None)
  done


section \<open>Confinement to the staging name, and the handler\<close>

lemma staging_ne_final: "staging_dir_of ev cfg \<noteq> project_id_of ev cfg"
proof
  assume "staging_dir_of ev cfg = project_id_of ev cfg"
  then have "length (staging_dir_of ev cfg) = length (project_id_of ev cfg)" by simp
  then show False by (simp add: staging_dir_of_def)
qed

lemma confined_mkdir_step:
  assumes "a \<in> S"
  shows "confined S (fs_step ev site (\<lambda>f. mkdir f (a # q) par ex))"
proof (rule confined_fs_step)
  fix f f' n
  assume "mkdir f (a # q) par ex = Inr f'" "n \<notin> S"
  then show "lookup f' [n] = lookup f [n]"
    using assms mkdir_other [of f a q par ex f' n "[]"] by auto
qed

lemma confined_mkdir_base: "confined S (fs_step ev site (\<lambda>f. mkdir f [] par ex))"
  by (rule confined_fs_step) (rule mkdir_base)

lemma confined_write_text_step:
  assumes "a \<in> S"
  shows "confined S (fs_step ev site (\<lambda>f. write_text f (a # q) c))"
proof (rule confined_fs_step)
  fix f f' n
  assume "write_text f (a # q) c = Inr f'" "n \<notin> S"
  then show "lookup f' [n] = lookup f [n]"
    using assms write_text_other [of f a q c f' n "[]"] by auto
qed

lemma confined_rename_step:
  assumes "a \<in> S" "b \<in> S"
  shows "confined S (fs_step ev site (\<lambda>f. rename f a b))"
proof (rule confined_fs_step)
  fix f f' n
  assume "rename f a b = Inr f'" "n \<notin> S"
  then show "lookup f' [n] = lookup f [n]"
    using assms rename_other [of f a b f' n "[]"] by auto
qed

lemma confined_rmtree_step:
  assumes "a \<in> S"
  shows "confined S (fs_step ev site (\<lambda>f. rmtree f a))"
proof (rule confined_fs_step)
  fix f f' n
  assume "rmtree f a = Inr f'" "n \<notin> S"
  then show "lookup f' [n] = lookup f [n]"
    using assms rmtree_other [of f a f' n "[]"] by auto
qed

lemma staging_steps_confined:
  assumes "c \<in> set (staging_steps ev cfg ex sql)"
  shows "confined {staging_dir_of ev cfg} c"
  using assms
  unfolding staging_steps_def Let_def ensure_staging_tree_def apply_canonical_schema_def
    upsert_step_def verify_step_def validate_step_def
  by (auto intro!: confined_mkdir_base confined_mkdir_step confined_log_event
      confined_connect_step confined_db_step confined_check_step confined_close_step
      confined_write_text_step)

lemma run_staging_evolves:
  assumes "run (staging_steps ev cfg ex sql) s = (e, s')"
  shows "evolves {staging_dir_of ev cfg} s s'"
  using confined_run [of "staging_steps ev cfg ex sql" "{staging_dir_of ev cfg}"]
    staging_steps_confined assms
  by (simp add: confined_def)

lemma except_handler_evolves:
  assumes "except_handler ev cfg e s = (e', s')"
  shows "evolves {staging_dir_of ev cfg} s s'"
proof -
  let ?stg = "staging_dir_of ev cfg"
  let ?lp = "[?stg, ''logs'', ''project.log'']"
  let ?logs = "[log_event ev ?lp ''ERROR'' ''create.failed''
                  ([Lit ''error='', ClsName (cls e), Lit '' detail=''] @ message e),
                write_text_line ev (SiteLog ?lp ''traceback'') ?lp TracebackText]"
  define s1 where "s1 = (if exists (fs_now s) [?stg] then snd (run ?logs s) else s)"
  define s2 where "s2 = (if conn_open s1 then snd (close_step ev s1) else s1)"
  have c1: "confined {?stg} (run ?logs)"
    by (rule confined_run) (auto intro!: confined_log_event confined_write_text_line)
  have e1: "evolves {?stg} s s1"
    unfolding s1_def using c1 by (cases "run ?logs s") (auto simp: confined_def evolves_refl)
  have e2: "evolves {?stg} s1 s2"
    unfolding s2_def using confined_close_step [of "{?stg}" ev]
    by (cases "close_step ev s1") (auto simp: confined_def evolves_refl)
  have e12: "evolves {?stg} s s2" using e1 e2 by (rule evolves_trans)
  have c3: "confined {?stg} (fs_step ev SiteRmtree (\<lambda>f. rmtree f ?stg))"
    by (rule confined_rmtree_step) simp
  obtain e3 s3 where r3: "fs_step ev SiteRmtree (\<lambda>f. rmtree f ?stg) s2 = (e3, s3)"
    by (cases "fs_step ev SiteRmtree (\<lambda>f. rmtree f ?stg) s2")
  have e3: "evolves {?stg} s2 s3" using c3 r3 by (simp add: confined_def)
  have "s' = s2 \<or> s' = s3"
    using assms r3 unfolding except_handler_def Let_def s1_def [symmetric] s2_def [symmetric]
    by (auto split: if_splits option.splits)
  then show ?thesis using e12 evolves_trans [OF e12 e3] by auto
qed

lemma except_handler_outcome:
  assumes "except_handler ev cfg e s = (e', s')"
  shows "if exists (fs_now s') [staging_dir_of ev cfg]
         then cls e' = FilesystemError \<and> cause e' = Some e
         else e' = reraise e"
proof -
  let ?stg = "staging_dir_of ev cfg"
  let ?lp = "[?stg, ''logs'', ''project.log'']"
  let ?logs = "[log_event ev ?lp ''ERROR'' ''create.failed''
                  ([Lit ''error='', ClsName (cls e), Lit '' detail=''] @ message e),
                write_text_line ev (SiteLog ?lp ''traceback'') ?lp TracebackText]"
  define s1 where "s1 = (if exists (fs_now s) [?stg] then snd (run ?logs s) else s)"
  define s2 where "s2 = (if conn_open s1 then snd (close_step ev s1) else s1)"
  note h = assms [unfolded except_handler_def Let_def s1_def [symmetric] s2_def [symmetric]]
  show ?thesis
  proof (cases "exists (fs_now s2) [?stg]")
    case False
    then show ?thesis using h by auto
  next
    case True
    show ?thesis
    proof (cases "fs_step ev SiteRmtree (\<lambda>f. rmtree f ?stg) s2")
      case (Pair e3 s3)
      show ?thesis
      proof (cases e3)
        case None
        then obtain f' where "rmtree (fs_now s2) ?stg = Inr f'" "s3 = set_fs f' s2"
          using Pair by (auto simp: fs_step_None)
        then have "\<not> exists (fs_now s3) [?stg]"
          using rmtree_gone [of "fs_now s2" ?stg f' "[]"] by (simp add: exists_def)
        then show ?thesis using h True Pair None by auto
      next
        case (Some re_err)
        then have "s3 = s2" using Pair by (auto simp: fs_step_def split: if_splits sum.splits)
        then show ?thesis using h True Pair Some by auto
      qed
    qed
  qed
qed


section \<open>Promotion, and the runs of \<^verbatim>\<open>create_project\<close>\<close>

lemma rename_in_base:
  assumes "map_of es a = None" and "map_of es b = None" and "a \<noteq> b"
  shows "rename (Some (in_base es a X)) a b = Inr (Some (in_base es b X))"
proof -
  have "a \<notin> fst ` set es" using assms(1) by (simp add: map_of_eq_None_iff)
  then have "AList.delete a (AList.update a X es) = es"
    by (simp add: AList.delete_update_same)
  then show ?thesis
    using assms by (simp add: rename_def in_base_def AList.update_conv')
qed

lemma fully_promoted_built:
  assumes "verify_schema_meta ''v1'' (compute_schema_hash ev sql) d = Inr ()"
    and "validate_schema (table_info_other ev) d ex = Inr ()"
    and "map_of es (staging_dir_of ev cfg) = None"
  shows "fully_promoted ev cfg ex sql
           (Some (in_base es (project_id_of ev cfg)
              (workspace_node cs d (manifest_dict cfg (project_id_of ev cfg) (now_iso ev)))))"
  using assms staging_ne_final [of ev cfg]
  by (simp add: fully_promoted_def Let_def workspace_node_def subfolders_def)

lemma final_log_op:
  "(case mkdir (Some (in_base es b (workspace_node cs d m))) (butlast [b, ''logs'', ''project.log'']) True True of
      Inl e \<Rightarrow> Inl e
    | Inr f' \<Rightarrow> append_text f' [b, ''logs'', ''project.log''] c)
   = Inr (Some (in_base es b (workspace_node (cs @ [c]) d m)))"
  by (simp add: mkdir_def append_text_def workspace_node_def)

lemma promote_cases:
  assumes f1: "fs_now s1 = Some (in_base es (staging_dir_of ev cfg) (workspace_node cs d m))"
    and ns: "map_of es (staging_dir_of ev cfg) = None"
    and nf: "map_of es (project_id_of ev cfg) = None"
    and r: "run (promote_steps ev cfg) s1 = (e, s2)"
  shows "(e \<noteq> None \<and> s2 = s1)
       \<or> (e \<noteq> None \<and> s2 = set_fs (Some (in_base es (project_id_of ev cfg) (workspace_node cs d m))) s1)
       \<or> (e = None \<and> (\<exists>c. s2 = set_fs (Some (in_base es (project_id_of ev cfg) (workspace_node (cs @ [c]) d m)))
                            (set_fs (Some (in_base es (project_id_of ev cfg) (workspace_node cs d m))) s1)))"
proof -
  let ?stg = "staging_dir_of ev cfg"
  let ?fin = "project_id_of ev cfg"
  let ?P = "Some (in_base es ?fin (workspace_node cs d m))"
  let ?c = "LogLine ''INFO'' ''create.finalized'' [Lit ''project_dir='', PathStr [?fin]]"
  have rn: "rename (fs_now s1) ?stg ?fin = Inr ?P"
    unfolding f1 using ns nf staging_ne_final by (rule rename_in_base)
  show ?thesis
  proof (cases "fails ev SiteRename")
    case True
    then show ?thesis using r by (auto simp: promote_steps_def Let_def fs_step_def)
  next
    case False
    then have st: "fs_step ev SiteRename (\<lambda>f. rename f ?stg ?fin) s1 = (None, set_fs ?P s1)"
      using rn by (simp add: fs_step_def)
    show ?thesis
    proof (cases "fails ev (SiteLog [?fin, ''logs'', ''project.log''] ''create.finalized'')")
      case True
      then show ?thesis using r st
        by (auto simp: promote_steps_def Let_def log_event_def write_text_line_def fs_step_def)
    next
      case False
      then have "log_event ev [?fin, ''logs'', ''project.log''] ''INFO'' ''create.finalized''
                   [Lit ''project_dir='', PathStr [?fin]] (set_fs ?P s1)
          = (None, set_fs (Some (in_base es ?fin (workspace_node (cs @ [?c]) d m))) (set_fs ?P s1))"
        unfolding log_event_def write_text_line_def fs_step_def
        by (simp only: fs_now_set_fs final_log_op) simp
      then show ?thesis using r st
        by (auto simp: promote_steps_def Let_def)
    qed
  qed
qed


lemma run_append:
  "run (xs @ ys) s = (case run xs s of (Some e, s') \<Rightarrow> (Some e, s') | (None, s') \<Rightarrow> run ys s')"
  by (induction xs arbitrary: s) (auto split: prod.splits option.splits)

lemma precheck_None_final:
  assumes "precheck ev cfg f = None"
  shows "lookup f [project_id_of ev cfg] = None"
  using assms
  by (auto simp: precheck_def exists_def split: sum.splits if_splits)

lemma except_handler_no_staging:
  assumes "\<not> exists (fs_now s) [staging_dir_of ev cfg]" and "\<not> conn_open s"
  shows "except_handler ev cfg e s = (reraise e, s)"
  using assms by (simp add: except_handler_def Let_def)

lemma conn_open_init [simp]: "conn_open (init_state f) = False"
  by (simp add: init_state_def)

lemma fs_now_init [simp]: "fs_now (init_state f) = f"
  by (simp add: init_state_def)

lemma history_init [simp]: "history (init_state f) = [f]"
  by (simp add: init_state_def)

lemma create_project_cases:
  assumes pc: "precheck ev cfg f = None"
    and cp: "create_project ev cfg ex sql f = (r, s')"
  obtains
    (early) e where "r = Inl e"
      and "evolves {staging_dir_of ev cfg} (init_state f) s'"
      and "exists (fs_now s') [staging_dir_of ev cfg] \<longrightarrow> cls e = FilesystemError"
  | (late) e es cs d s1 where "r = Inl e"
      and "evolves {staging_dir_of ev cfg} (init_state f) s1"
      and "s' = set_fs (Some (in_base es (project_id_of ev cfg)
                  (workspace_node cs d (manifest_dict cfg (project_id_of ev cfg) (now_iso ev))))) s1"
      and "f = None \<and> es = [] \<or> f = Some (Dir es)"
      and "map_of es (staging_dir_of ev cfg) = None"
      and "map_of es (project_id_of ev cfg) = None"
      and "verify_schema_meta ''v1'' (compute_schema_hash ev sql) d = Inr ()"
      and "validate_schema (table_info_other ev) d ex = Inr ()"
  | (promoted) es cs c d s1 where
      "r = Inr \<lparr>project_id = JStr (project_id_of ev cfg), project_dir = project_id_of ev cfg,
              manifest_path = [project_id_of ev cfg, ''manifest.json''],
              database_path = [project_id_of ev cfg, ''library.db''], status = ''created''\<rparr>"
      and "evolves {staging_dir_of ev cfg} (init_state f) s1"
      and "s' = set_fs (Some (in_base es (project_id_of ev cfg)
                  (workspace_node (cs @ [c]) d (manifest_dict cfg (project_id_of ev cfg) (now_iso ev)))))
                (set_fs (Some (in_base es (project_id_of ev cfg)
                  (workspace_node cs d (manifest_dict cfg (project_id_of ev cfg) (now_iso ev))))) s1)"
      and "f = None \<and> es = [] \<or> f = Some (Dir es)"
      and "map_of es (staging_dir_of ev cfg) = None"
      and "map_of es (project_id_of ev cfg) = None"
      and "verify_schema_meta ''v1'' (compute_schema_hash ev sql) d = Inr ()"
      and "validate_schema (table_info_other ev) d ex = Inr ()"
proof -
  let ?stg = "staging_dir_of ev cfg"
  let ?fin = "project_id_of ev cfg"
  let ?m = "manifest_dict cfg ?fin (now_iso ev)"
  let ?s0 = "init_state f"
  obtain e1 s1 where r1: "run (staging_steps ev cfg ex sql) ?s0 = (e1, s1)"
    by (cases "run (staging_steps ev cfg ex sql) ?s0")
  have ev1: "evolves {?stg} ?s0 s1" using r1 by (rule run_staging_evolves)
  have fail_from: thesis
    if rb: "run (try_body ev cfg ex sql) ?s0 = (Some e, s1)" for e
  proof -
    obtain e' s'' where h: "except_handler ev cfg e s1 = (e', s'')"
      by (cases "except_handler ev cfg e s1")
    have res: "r = Inl e'" "s' = s''"
      using cp pc rb h by (simp_all add: create_project_def)
    have "evolves {?stg} ?s0 s'"
      using ev1 except_handler_evolves [OF h] res by (auto intro: evolves_trans)
    moreover have "exists (fs_now s') [?stg] \<longrightarrow> cls e' = FilesystemError"
      using except_handler_outcome [OF h] res by auto
    ultimately show thesis using early res by blast
  qed
  show thesis
  proof (cases e1)
    case (Some e)
    then have "run (try_body ev cfg ex sql) ?s0 = (Some e, s1)"
      using r1 by (simp add: try_body_def run_append)
    then show thesis by (rule fail_from)
  next
    case None
    from staging_built [OF r1 [unfolded None]]
    obtain es d cs where base: "f = None \<and> es = [] \<or> f = Some (Dir es)"
      and ns: "map_of es ?stg = None"
      and f1: "fs_now s1 = Some (in_base es ?stg (workspace_node cs d ?m))"
      and ver: "verify_schema_meta ''v1'' (compute_schema_hash ev sql) d = Inr ()"
      and val: "validate_schema (table_info_other ev) d ex = Inr ()"
      and co: "conn_open s1 = False"
      by auto
    have nf: "map_of es ?fin = None"
      using base precheck_None_final [OF pc] by auto
    obtain e2 s2 where r2: "run (promote_steps ev cfg) s1 = (e2, s2)"
      by (cases "run (promote_steps ev cfg) s1")
    have rb: "run (try_body ev cfg ex sql) ?s0 = (e2, s2)"
      using r1 r2 None by (simp add: try_body_def run_append)
    let ?P = "Some (in_base es ?fin (workspace_node cs d ?m))"
    from promote_cases [OF f1 ns nf r2]
    consider (a) "e2 \<noteq> None" "s2 = s1"
      | (b) "e2 \<noteq> None" "s2 = set_fs ?P s1"
      | (c) c where "e2 = None"
          "s2 = set_fs (Some (in_base es ?fin (workspace_node (cs @ [c]) d ?m))) (set_fs ?P s1)"
      by blast
    then show thesis
    proof cases
      case a
      then obtain e where "e2 = Some e" by auto
      then have "run (try_body ev cfg ex sql) ?s0 = (Some e, s1)" using rb a by simp
      then show thesis by (rule fail_from)
    next
      case b
      then obtain e where e: "e2 = Some e" by auto
      have "\<not> exists (fs_now s2) [?stg]"
        using b ns staging_ne_final [of ev cfg] by (simp add: exists_def)
      moreover have "\<not> conn_open s2" using b co by simp
      ultimately have "except_handler ev cfg e s2 = (reraise e, s2)"
        by (rule except_handler_no_staging)
      then have "r = Inl (reraise e)" "s' = s2"
        using cp pc rb e by (simp_all add: create_project_def)
      then show thesis using late [of "reraise e" s1 es cs d] ev1 b base ns nf ver val by blast
    next
      case c
      then have "r = Inr \<lparr>project_id = JStr ?fin, project_dir = ?fin,
              manifest_path = [?fin, ''manifest.json''],
              database_path = [?fin, ''library.db''], status = ''created''\<rparr>" "s' = s2"
        using cp pc rb by (simp_all add: create_project_def)
      then show thesis using promoted [of s1 es cs c d] ev1 c base ns nf ver val by blast
    qed
  qed
qed


section \<open>Atomic creation\<close>

lemma evolves_history:
  assumes "evolves S (init_state f) s" and "h \<in> set (history s)" and "n \<notin> S"
  shows "lookup h [n] = lookup f [n]"
  using assms by (auto simp: evolves_def)

lemma history_set_fs [simp]: "history (set_fs f s) = history s @ [f]"
  by (simp add: set_fs_def)

lemma lookup_base_entry:
  assumes "f = None \<and> es = [] \<or> f = Some (Dir es)"
  shows "lookup f [n] = map_of es n"
  using assms by auto

text \<open>
  C1, as stated, in the environment where the rename fails and the rollback's \<^verbatim>\<open>rmtree\<close>
  fails too: the error reaches the caller while the staging directory is still there.
\<close>

theorem create_project_rollback_fails_counterexample:
  "precheck ex_env_rollback_fails ex_cfg None = None
   \<and> fst (create_project ex_env_rollback_fails ex_cfg ex_expected ''sql'' None)
       = Inl (Exn FilesystemError [Lit ''Creation failed and rollback also failed.'']
               [[LibText ''OSError'']] (Some (Exn OSError [LibText ''OSError''] [] None)))
   \<and> lookup (fs_now (snd (create_project ex_env_rollback_fails ex_cfg ex_expected ''sql'' None)))
        [staging_dir_of ex_env_rollback_fails ex_cfg] \<noteq> None"
  by code_simp

text \<open>
  C1, amended. In every execution of \<^verbatim>\<open>create_project\<close>, in every state the filesystem
  goes through, the final directory is as it was before the call (absent, when the checks
  before the \<^verbatim>\<open>try\<close> block passed) or the workspace is fully promoted; every entry of the
  base directory other than the staging name and the final name is as it was before the
  call; and the staging name starts with \<open>.tmp_\<close>. When the call fails inside the
  \<^verbatim>\<open>try\<close> block, the staging directory is gone when the error reaches the caller,
  unless the error is the \<open>FilesystemError\<close> of a failed rollback.
\<close>

theorem create_project_atomic:
  assumes cp: "create_project ev cfg ex sql f = (r, s')"
  shows "(\<forall>h \<in> set (history s').
            (lookup h [project_id_of ev cfg] = lookup f [project_id_of ev cfg]
               \<or> fully_promoted ev cfg ex sql h)
          \<and> (\<forall>n. n \<noteq> staging_dir_of ev cfg \<and> n \<noteq> project_id_of ev cfg
                 \<longrightarrow> lookup h [n] = lookup f [n]))
       \<and> (\<forall>e. precheck ev cfg f = None \<and> r = Inl e \<longrightarrow>
            lookup f [project_id_of ev cfg] = None
            \<and> (lookup (fs_now s') [staging_dir_of ev cfg] = None \<or> cls e = FilesystemError))
       \<and> take 5 (staging_dir_of ev cfg) = ''.tmp_''"
proof -
  let ?stg = "staging_dir_of ev cfg"
  let ?fin = "project_id_of ev cfg"
  let ?m = "manifest_dict cfg ?fin (now_iso ev)"
  let ?ok = "\<lambda>h. (lookup h [?fin] = lookup f [?fin] \<or> fully_promoted ev cfg ex sql h)
          \<and> (\<forall>n. n \<noteq> ?stg \<and> n \<noteq> ?fin \<longrightarrow> lookup h [n] = lookup f [n])"
  have pre: "?ok h" if "evolves {?stg} (init_state f) s1" "h \<in> set (history s1)" for h s1
    using evolves_history [OF that, of _] staging_ne_final [of ev cfg] by auto
  have prom: "?ok (Some (in_base es ?fin (workspace_node cs d ?m)))"
    if "f = None \<and> es = [] \<or> f = Some (Dir es)" "map_of es ?stg = None"
       "verify_schema_meta ''v1'' (compute_schema_hash ev sql) d = Inr ()"
       "validate_schema (table_info_other ev) d ex = Inr ()" for es cs d
    using fully_promoted_built [OF that(3,4,2), of cs] lookup_base_entry [OF that(1)]
    by simp
  have tmp: "take 5 ?stg = ''.tmp_''" by (simp add: staging_dir_of_def)
  show ?thesis
  proof (cases "precheck ev cfg f")
    case (Some e)
    then have "s' = init_state f" using cp by (simp add: create_project_def)
    then show ?thesis using Some tmp by simp
  next
    case None
    have fin0: "lookup f [?fin] = None" using None by (rule precheck_None_final)
    from None cp show ?thesis
    proof (cases rule: create_project_cases)
      case (early e)
      then show ?thesis using pre [OF early(2)] tmp fin0 by (auto simp: exists_def)
    next
      case (late e es cs d s1)
      have "\<forall>h \<in> set (history s'). ?ok h"
        using pre [OF late(2)] prom [OF late(4,5,7,8), of cs] late(3) by auto
      moreover have "lookup (fs_now s') [?stg] = None"
        using late(3,5) staging_ne_final [of ev cfg] by simp
      ultimately show ?thesis using tmp fin0 by simp
    next
      case (promoted es cs c d s1)
      have "\<forall>h \<in> set (history s'). ?ok h"
        using pre [OF promoted(2)] prom [OF promoted(4,5,7,8), of cs]
          prom [OF promoted(4,5,7,8), of "cs @ [c]"] promoted(3) by auto
      then show ?thesis using tmp promoted(1) by simp
    qed
  qed
qed


theorem create_project_atomic_witness:
  "precheck ex_env_rename_fails ex_cfg None = None
   \<and> fst (create_project ex_env_rename_fails ex_cfg ex_expected ''sql'' None)
       = Inl (Exn GenericProjectCreatorError [Lit ''Project creation failed.''] [[LibText ''OSError'']]
               (Some (Exn OSError [LibText ''OSError''] [] None)))
   \<and> lookup (fs_now (snd (create_project ex_env_rename_fails ex_cfg ex_expected ''sql'' None)))
        [staging_dir_of ex_env_rename_fails ex_cfg] = None"
proof -
  let ?run = "create_project ex_env_rename_fails ex_cfg ex_expected ''sql'' None"
  have a: "precheck ex_env_rename_fails ex_cfg None = None" by code_simp
  have b: "fst ?run = Inl (Exn GenericProjectCreatorError [Lit ''Project creation failed.'']
               [[LibText ''OSError'']] (Some (Exn OSError [LibText ''OSError''] [] None)))"
    by code_simp
  have c: "?run = (fst ?run, snd ?run)" by simp
  from create_project_atomic [OF c] a b
  have "lookup (fs_now (snd ?run)) [staging_dir_of ex_env_rename_fails ex_cfg] = None"
    by simp
  then show ?thesis using a b by simp
qed

section \<open>Errors of a failed creation\<close>

text \<open>Writing below an entry of the base directory leaves that entry a directory.\<close>

lemma put_deep_dir:
  assumes "put f (a # b # q) v = Some n"
  shows "(\<exists>sub. lookup f [a] = Some (Dir sub)) \<and> (\<exists>sub. lookup (Some n) [a] = Some (Dir sub))"
proof -
  obtain es where f: "f = Some (Dir es)"
  proof (cases f)
    case None
    then show ?thesis using assms by simp
  next
    case (Some x)
    then show ?thesis using assms that by (cases x) simp_all
  qed
  obtain c where c: "put (map_of es a) (b # q) v = Some c" and n: "n = Dir (AList.update a c es)"
    using assms f by (auto split: option.splits)
  obtain es' where e: "map_of es a = Some (Dir es')"
  proof (cases "map_of es a")
    case None
    then show ?thesis using c by simp
  next
    case (Some x)
    then show ?thesis using c that by (cases x) simp_all
  qed
  have "\<exists>sub. c = Dir sub" using c e by (auto split: option.splits)
  then show ?thesis using f e n by (auto simp: AList.update_conv')
qed

lemma mkdir_p_deep_dir:
  assumes "mkdir_p f (a # b # q) = Inr n" and "lookup f [a] \<noteq> None"
  shows "(\<exists>sub. lookup f [a] = Some (Dir sub)) \<and> (\<exists>sub. lookup (Some n) [a] = Some (Dir sub))"
proof -
  obtain es where f: "f = Some (Dir es)"
  proof (cases f)
    case None
    then show ?thesis using assms(2) by simp
  next
    case (Some x)
    then show ?thesis using assms(2) that by (cases x) simp_all
  qed
  obtain x where x: "map_of es a = Some x" using assms(2) f by auto
  obtain c where c: "mkdir_p (Some x) (b # q) = Inr c" and n: "n = Dir (AList.update a c es)"
    using assms(1) f x by (auto split: sum.splits)
  obtain es' where e: "x = Dir es'"
    using c by (cases x) auto
  have "\<exists>sub. c = Dir sub" using c e by (auto split: sum.splits)
  then show ?thesis using f x e n by (auto simp: AList.update_conv')
qed

lemma write_text_line_kind:
  assumes w: "write_text_line ev site [a, b, c] line s = (r, s')"
    and ex: "lookup (fs_now s) [a] \<noteq> None"
  shows "lookup (fs_now s') [a] \<noteq> None
       \<and> ((\<exists>sub. lookup (fs_now s') [a] = Some (Dir sub)) \<longleftrightarrow> (\<exists>sub. lookup (fs_now s) [a] = Some (Dir sub)))"
proof (cases r)
  case (Some e)
  then have "s' = s"
    using w by (auto simp: write_text_line_def fs_step_def split: if_splits sum.splits)
  then show ?thesis using ex by simp
next
  case None
  then obtain f1 f' where m: "mkdir (fs_now s) [a, b] True True = Inr f1"
    and ap: "append_text f1 [a, b, c] line = Inr f'" and s': "s' = set_fs f' s"
    using w by (auto simp: write_text_line_None)
  obtain v n where p: "put f1 [a, b, c] v = Some n" and f': "f' = Some n"
    using ap by (auto simp: append_text_def split: option.splits node.splits)
  from put_deep_dir [OF p]
  have d1: "\<exists>sub. lookup f1 [a] = Some (Dir sub)" and d2: "\<exists>sub. lookup f' [a] = Some (Dir sub)"
    by (simp_all add: f')
  have d0: "\<exists>sub. lookup (fs_now s) [a] = Some (Dir sub)"
  proof (cases "f1 = fs_now s")
    case True
    then show ?thesis using d1 by simp
  next
    case False
    then obtain n1 where "mkdir_p (fs_now s) [a, b] = Inr n1"
      using m by (auto simp: mkdir_def split: option.splits node.splits sum.splits if_splits)
    then show ?thesis using mkdir_p_deep_dir ex by blast
  qed
  show ?thesis using d0 d2 s' by auto
qed

lemma rmtree_isl:
  "isl (rmtree f d) \<longleftrightarrow> \<not> (\<exists>sub. lookup f [d] = Some (Dir sub))"
proof (cases f)
  case None
  then show ?thesis by (simp add: rmtree_def)
next
  case (Some x)
  then show ?thesis by (cases x) (auto simp: rmtree_def split: option.splits node.splits)
qed

text \<open>
  What the handler raises and leaves behind, by the outcome of its deletion of the staging
  directory.
\<close>

lemma except_handler_result:
  assumes h0: "except_handler ev cfg e s = (e', s')"
  shows "if rollback_fails ev cfg s
         then cls e' = FilesystemError
              \<and> message e' = [Lit ''Creation failed and rollback also failed.'']
              \<and> cause e' = Some e
              \<and> exists (fs_now s') [staging_dir_of ev cfg]
         else e' = reraise e \<and> \<not> exists (fs_now s') [staging_dir_of ev cfg]"
proof -
  let ?stg = "staging_dir_of ev cfg"
  let ?lp = "[?stg, ''logs'', ''project.log'']"
  let ?l1 = "log_event ev ?lp ''ERROR'' ''create.failed''
                  ([Lit ''error='', ClsName (cls e), Lit '' detail=''] @ message e)"
  let ?l2 = "write_text_line ev (SiteLog ?lp ''traceback'') ?lp TracebackText"
  let ?D = "\<lambda>t. \<exists>sub. lookup (fs_now t) [?stg] = Some (Dir sub)"
  define s1 where "s1 = (if exists (fs_now s) [?stg] then snd (run [?l1, ?l2] s) else s)"
  define s2 where "s2 = (if conn_open s1 then snd (close_step ev s1) else s1)"
  note h = h0 [unfolded except_handler_def Let_def s1_def [symmetric] s2_def [symmetric]]
  have k1: "exists (fs_now s1) [?stg] = exists (fs_now s) [?stg] \<and> ?D s1 = ?D s"
  proof (cases "exists (fs_now s) [?stg]")
    case False
    then show ?thesis by (simp add: s1_def)
  next
    case True
    then have ex: "lookup (fs_now s) [?stg] \<noteq> None" by (simp add: exists_def)
    obtain r1 t1 where a: "?l1 s = (r1, t1)" by (cases "?l1 s")
    from write_text_line_kind [OF a [unfolded log_event_def] ex]
    have ka: "lookup (fs_now t1) [?stg] \<noteq> None" "?D t1 = ?D s" by simp_all
    obtain r2 t2 where b: "?l2 t1 = (r2, t2)" by (cases "?l2 t1")
    from write_text_line_kind [OF b ka(1)]
    have kb: "lookup (fs_now t2) [?stg] \<noteq> None" "?D t2 = ?D t1" by simp_all
    have "s1 = t1 \<or> s1 = t2"
      using True a b by (cases r1; cases r2) (simp_all add: s1_def)
    then show ?thesis using ka kb True by (auto simp: exists_def)
  qed
  have "fs_now s2 = fs_now s1"
    by (simp add: s2_def close_step_def)
  then have k2: "exists (fs_now s2) [?stg] = exists (fs_now s) [?stg]" "?D s2 = ?D s"
    using k1 by simp_all
  have rf: "rollback_fails ev cfg s \<longleftrightarrow>
      exists (fs_now s2) [?stg] \<and> (fails ev SiteRmtree \<or> isl (rmtree (fs_now s2) ?stg))"
    unfolding rollback_fails_def rmtree_isl k2 ..
  show ?thesis
  proof (cases "exists (fs_now s2) [?stg]")
    case False
    then show ?thesis using h rf by auto
  next
    case True
    show ?thesis
    proof (cases "fs_step ev SiteRmtree (\<lambda>f. rmtree f ?stg) s2")
      case (Pair e3 s3)
      show ?thesis
      proof (cases e3)
        case None
        then obtain f' where nf: "\<not> fails ev SiteRmtree"
          and rm: "rmtree (fs_now s2) ?stg = Inr f'" and s3: "s3 = set_fs f' s2"
          using Pair by (auto simp: fs_step_None)
        have gone: "\<not> exists (fs_now s3) [?stg]"
          using rmtree_gone [OF rm, of "[]"] s3 by (simp add: exists_def)
        have "\<not> rollback_fails ev cfg s" using rf nf rm by simp
        then show ?thesis using h True Pair None gone by auto
      next
        case (Some re_err)
        then have same: "s3 = s2"
          using Pair by (auto simp: fs_step_def split: if_splits sum.splits)
        have "fails ev SiteRmtree \<or> isl (rmtree (fs_now s2) ?stg)"
          using Pair Some by (auto simp: fs_step_def split: if_splits sum.splits)
        then have "rollback_fails ev cfg s" using rf True by simp
        then show ?thesis using h True Pair Some same by auto
      qed
    qed
  qed
qed

text \<open>
  C8. Let \<^verbatim>\<open>create_project\<close> fail inside its \<^verbatim>\<open>try\<close> block with the exception \<open>e\<close>,
  in the state \<open>s\<close>. When the rollback's deletion of the staging directory fails (the
  staging path exists and \<^verbatim>\<open>shutil.rmtree\<close> raises), the caller gets the
  \<open>FilesystemError\<close> whose cause is \<open>e\<close>, and the staging path is still there. In every
  other case the staging path is gone and the caller gets \<open>e\<close> itself when it is a
  \<open>ProjectCreatorError\<close>, and else the generic \<open>ProjectCreatorError\<close> that wraps \<open>e\<close>
  and has it as its cause.
\<close>

theorem create_project_failure_outcome:
  assumes "precheck ev cfg f = None"
    and "run (try_body ev cfg ex sql) (init_state f) = (Some e, s)"
  shows "\<exists>e' s'. create_project ev cfg ex sql f = (Inl e', s')
           \<and> (if rollback_fails ev cfg s
               then cls e' = FilesystemError
                    \<and> message e' = [Lit ''Creation failed and rollback also failed.'']
                    \<and> cause e' = Some e
                    \<and> exists (fs_now s') [staging_dir_of ev cfg]
               else (if is_ProjectCreatorError e then e' = e
                     else e' = Exn GenericProjectCreatorError [Lit ''Project creation failed.'']
                                 [message e] (Some e))
                    \<and> \<not> exists (fs_now s') [staging_dir_of ev cfg])"
proof -
  obtain e1 s1 where h: "except_handler ev cfg e s = (e1, s1)"
    by (cases "except_handler ev cfg e s")
  have cp: "create_project ev cfg ex sql f = (Inl e1, s1)"
    using assms h by (simp add: create_project_def)
  show ?thesis
    using except_handler_result [OF h] cp by (auto simp: reraise_def)
qed

theorem create_project_failure_outcome_witness:
  "precheck ex_env_rollback_fails ex_cfg None = None
   \<and> (\<exists>s. run (try_body ex_env_rollback_fails ex_cfg ex_expected ''sql'') (init_state None)
            = (Some (Exn OSError [LibText ''OSError''] [] None), s)
          \<and> rollback_fails ex_env_rollback_fails ex_cfg s)
   \<and> (\<exists>e' s'. create_project ex_env_rollback_fails ex_cfg ex_expected ''sql'' None = (Inl e', s')
          \<and> cls e' = FilesystemError
          \<and> cause e' = Some (Exn OSError [LibText ''OSError''] [] None))
   \<and> precheck ex_env ex_cfg None = None
   \<and> (\<exists>s. run (try_body ex_env ex_cfg ex_expected_notes ''sql'') (init_state None)
            = (Some (schema_mismatch [Lit ''Database schema mismatch.'']
                       (format_schema_diff [''notes''] [] [])), s)
          \<and> \<not> rollback_fails ex_env ex_cfg s)
   \<and> (\<exists>s'. create_project ex_env ex_cfg ex_expected_notes ''sql'' None
            = (Inl (schema_mismatch [Lit ''Database schema mismatch.'']
                      (format_schema_diff [''notes''] [] [])), s')
          \<and> \<not> exists (fs_now s') [staging_dir_of ex_env ex_cfg])"
proof -
  let ?e = "Exn OSError [LibText ''OSError''] [] None"
  let ?run = "run (try_body ex_env_rollback_fails ex_cfg ex_expected ''sql'') (init_state None)"
  have a: "precheck ex_env_rollback_fails ex_cfg None = None" by code_simp
  have b: "fst ?run = Some ?e" by code_simp
  have c: "rollback_fails ex_env_rollback_fails ex_cfg (snd ?run)" by code_simp
  have r: "?run = (Some ?e, snd ?run)" using b by (cases ?run) simp
  from create_project_failure_outcome [OF a r]
  obtain e' s' where d: "create_project ex_env_rollback_fails ex_cfg ex_expected ''sql'' None = (Inl e', s')
           \<and> (if rollback_fails ex_env_rollback_fails ex_cfg (snd ?run)
               then cls e' = FilesystemError
                    \<and> message e' = [Lit ''Creation failed and rollback also failed.'']
                    \<and> cause e' = Some ?e
                    \<and> exists (fs_now s') [staging_dir_of ex_env_rollback_fails ex_cfg]
               else (if is_ProjectCreatorError ?e then e' = ?e
                     else e' = Exn GenericProjectCreatorError [Lit ''Project creation failed.'']
                                 [message ?e] (Some ?e))
                    \<and> \<not> exists (fs_now s') [staging_dir_of ex_env_rollback_fails ex_cfg])"
    by blast
  have e: "cls e' = FilesystemError \<and> cause e' = Some ?e"
    using d c by simp
  have p1: "\<exists>s. ?run = (Some ?e, s) \<and> rollback_fails ex_env_rollback_fails ex_cfg s"
    using r c by blast
  have p2: "\<exists>e' s'. create_project ex_env_rollback_fails ex_cfg ex_expected ''sql'' None = (Inl e', s')
          \<and> cls e' = FilesystemError \<and> cause e' = Some ?e"
    using d e by blast
  let ?m = "schema_mismatch [Lit ''Database schema mismatch.''] (format_schema_diff [''notes''] [] [])"
  let ?run2 = "run (try_body ex_env ex_cfg ex_expected_notes ''sql'') (init_state None)"
  have a2: "precheck ex_env ex_cfg None = None" by code_simp
  have b2: "fst ?run2 = Some ?m" by code_simp
  have c2: "\<not> rollback_fails ex_env ex_cfg (snd ?run2)" by code_simp
  have t2: "is_ProjectCreatorError ?m"
    by (simp add: is_ProjectCreatorError_def schema_mismatch_def)
  have r2: "?run2 = (Some ?m, snd ?run2)" using b2 by (cases ?run2) simp
  from create_project_failure_outcome [OF a2 r2]
  obtain e2 s2 where d2: "create_project ex_env ex_cfg ex_expected_notes ''sql'' None = (Inl e2, s2)
           \<and> (if rollback_fails ex_env ex_cfg (snd ?run2)
               then cls e2 = FilesystemError
                    \<and> message e2 = [Lit ''Creation failed and rollback also failed.'']
                    \<and> cause e2 = Some ?m
                    \<and> exists (fs_now s2) [staging_dir_of ex_env ex_cfg]
               else (if is_ProjectCreatorError ?m then e2 = ?m
                     else e2 = Exn GenericProjectCreatorError [Lit ''Project creation failed.'']
                                 [message ?m] (Some ?m))
                    \<and> \<not> exists (fs_now s2) [staging_dir_of ex_env ex_cfg])"
    by blast
  have e2: "e2 = ?m \<and> \<not> exists (fs_now s2) [staging_dir_of ex_env ex_cfg]"
    using d2 c2 t2 by simp
  have p3: "\<exists>s. ?run2 = (Some ?m, s) \<and> \<not> rollback_fails ex_env ex_cfg s"
    using r2 c2 by blast
  have p4: "\<exists>s'. create_project ex_env ex_cfg ex_expected_notes ''sql'' None = (Inl ?m, s')
          \<and> \<not> exists (fs_now s') [staging_dir_of ex_env ex_cfg]"
    using d2 e2 by blast
  show ?thesis using a p1 p2 a2 p3 p4 by (intro conjI)
qed

section \<open>Failure after promotion\<close>

text \<open>
  C10. In a failing call of \<^verbatim>\<open>create_project\<close>, once the final directory has been there
  in some state (the rename has succeeded), it is there, unchanged, when the error reaches
  the caller, and the workspace is fully promoted.
\<close>

theorem create_project_promoted_survives:
  assumes pc: "precheck ev cfg f = None"
    and cp: "create_project ev cfg ex sql f = (Inl e, s')"
    and h: "h \<in> set (history s')"
    and p: "lookup h [project_id_of ev cfg] \<noteq> None"
  shows "lookup (fs_now s') [project_id_of ev cfg] = lookup h [project_id_of ev cfg]
       \<and> fully_promoted ev cfg ex sql (fs_now s')"
proof -
  let ?stg = "staging_dir_of ev cfg"
  let ?fin = "project_id_of ev cfg"
  have fin0: "lookup f [?fin] = None" using pc by (rule precheck_None_final)
  have absent: "lookup h' [?fin] = None"
    if "evolves {?stg} (init_state f) s1" "h' \<in> set (history s1)" for h' s1
    using evolves_history [OF that, of ?fin] staging_ne_final [of ev cfg] fin0 by auto
  from pc cp show ?thesis
  proof (cases rule: create_project_cases)
    case (early e)
    then show ?thesis using absent [OF early(2) h] p by simp
  next
    case (late e es cs d s1)
    have "h = fs_now s'" using late(3) h p absent [OF late(2)] by auto
    then show ?thesis
      using late(3) fully_promoted_built [OF late(7,8,5), of cs] by simp
  next
    case (promoted es cs c d s1)
    then show ?thesis by simp
  qed
qed

theorem create_project_promoted_survives_witness:
  "precheck ex_env_final_log_fails ex_cfg None = None
   \<and> fst (create_project ex_env_final_log_fails ex_cfg ex_expected ''sql'' None)
       = Inl (Exn GenericProjectCreatorError [Lit ''Project creation failed.''] [[LibText ''OSError'']]
               (Some (Exn OSError [LibText ''OSError''] [] None)))
   \<and> lookup (fs_now (snd (create_project ex_env_final_log_fails ex_cfg ex_expected ''sql'' None)))
        [project_id_of ex_env_final_log_fails ex_cfg] \<noteq> None
   \<and> fully_promoted ex_env_final_log_fails ex_cfg ex_expected ''sql''
        (fs_now (snd (create_project ex_env_final_log_fails ex_cfg ex_expected ''sql'' None)))"
proof -
  let ?run = "create_project ex_env_final_log_fails ex_cfg ex_expected ''sql'' None"
  let ?err = "Exn GenericProjectCreatorError [Lit ''Project creation failed.''] [[LibText ''OSError'']]
               (Some (Exn OSError [LibText ''OSError''] [] None))"
  have a: "precheck ex_env_final_log_fails ex_cfg None = None" by code_simp
  have b: "fst ?run = Inl ?err" by code_simp
  have c: "?run = (Inl ?err, snd ?run)" using b by (cases ?run) simp
  have d: "last (history (snd ?run)) \<in> set (history (snd ?run))" by code_simp
  have e: "lookup (last (history (snd ?run))) [project_id_of ex_env_final_log_fails ex_cfg] \<noteq> None"
    by code_simp
  have g: "last (history (snd ?run)) = fs_now (snd ?run)" by code_simp
  from create_project_promoted_survives [OF a c d e] g
  have "fully_promoted ex_env_final_log_fails ex_cfg ex_expected ''sql'' (fs_now (snd ?run))"
    by simp
  then show ?thesis using a b e g by simp
qed


section \<open>The subfolders\<close>

lemma staging_mkdir_any:
  assumes "mkdir f [a] True False = Inr f'"
  shows "\<exists>es. f' = Some (in_base es a (Dir []))"
proof (cases f)
  case None
  then have "f' = Some (in_base [] a (Dir []))"
    using assms by (auto simp: mkdir_def in_base_def)
  then show ?thesis by blast
next
  case (Some nd)
  show ?thesis
  proof (cases nd)
    case (Dir es)
    then show ?thesis using assms Some by (auto simp: staging_mkdir_Inr)
  qed (use assms Some in \<open>auto simp: mkdir_def\<close>)
qed

lemma ensure_staging_tree_exact:
  assumes "run (ensure_staging_tree ev a) s = (None, s1)"
  shows "lookup (fs_now s1) [a] =
           Some (Dir [(''pdfs'', Dir []), (''ingested'', Dir []), (''indexes'', Dir []),
                      (''drafts'', Dir []), (''exports'', Dir []), (''logs'', Dir [])])"
proof -
  from assms have "\<exists>s0. fs_step ev (SiteMkdir [a]) (\<lambda>f. mkdir f [a] True False) s = (None, s0)
    \<and> run (map (\<lambda>sub. fs_step ev (SiteMkdir [a, sub]) (\<lambda>f. mkdir f [a, sub] False False)) subfolders) s0 = (None, s1)"
    by (simp only: ensure_staging_tree_def run_Cons_None)
  then obtain s0 where m: "fs_step ev (SiteMkdir [a]) (\<lambda>f. mkdir f [a] True False) s = (None, s0)"
    and r: "run (map (\<lambda>sub. fs_step ev (SiteMkdir [a, sub]) (\<lambda>f. mkdir f [a, sub] False False)) subfolders) s0 = (None, s1)"
    by blast
  from m obtain es where f0: "fs_now s0 = Some (in_base es a (Dir []))"
    using staging_mkdir_any by (fastforce simp: fs_step_None)
  show ?thesis
    using r f0
    apply (simp only: subfolders_def list.map run_Cons_None run_Nil_None)
    apply (clarsimp simp: fs_step_None sub_mkdir_Inr)
    done
qed

text \<open>
  C9, as stated, at the example creation: the promoted workspace has no subfolder
  \<open>artifact-inbox\<close>, which the claim lists, and has the subfolder \<open>pdfs\<close>, which the
  claim does not list.
\<close>

theorem create_project_subfolders_counterexample:
  "fst (create_project ex_env ex_cfg ex_expected ''sql'' None)
     = Inr \<lparr>project_id = JStr ''2026-11-04_abc'', project_dir = ''2026-11-04_abc'',
           manifest_path = [''2026-11-04_abc'', ''manifest.json''],
           database_path = [''2026-11-04_abc'', ''library.db''], status = ''created''\<rparr>
   \<and> ''artifact-inbox'' \<in> set spec_subfolders
   \<and> lookup (fs_now (snd (create_project ex_env ex_cfg ex_expected ''sql'' None)))
        [''2026-11-04_abc'', ''artifact-inbox''] = None
   \<and> lookup (fs_now (snd (create_project ex_env ex_cfg ex_expected ''sql'' None)))
        [''2026-11-04_abc'', ''pdfs''] = Some (Dir [])
   \<and> ''pdfs'' \<notin> set spec_subfolders"
  by code_simp


text \<open>
  C9, amended. When \<^verbatim>\<open>_ensure_staging_tree\<close> returns, the staging directory consists
  exactly of the six empty directories pdfs, ingested, indexes, drafts, exports and logs;
  and when \<^verbatim>\<open>create_project\<close> returns, the directories in the promoted workspace are
  exactly these six.
\<close>

theorem create_project_subfolders:
  "(run (ensure_staging_tree ev a) s = (None, s1) \<longrightarrow>
      lookup (fs_now s1) [a] =
        Some (Dir [(''pdfs'', Dir []), (''ingested'', Dir []), (''indexes'', Dir []),
                   (''drafts'', Dir []), (''exports'', Dir []), (''logs'', Dir [])]))
   \<and> (create_project ev cfg ex sql f = (Inr info, s') \<longrightarrow>
        (\<exists>es. lookup (fs_now s') [project_dir info] = Some (Dir es)
           \<and> map fst (filter (\<lambda>p. is_dir (snd p)) es)
               = [''pdfs'', ''ingested'', ''indexes'', ''drafts'', ''exports'', ''logs'']))"
proof (intro conjI impI)
  assume "run (ensure_staging_tree ev a) s = (None, s1)"
  then show "lookup (fs_now s1) [a] =
        Some (Dir [(''pdfs'', Dir []), (''ingested'', Dir []), (''indexes'', Dir []),
                   (''drafts'', Dir []), (''exports'', Dir []), (''logs'', Dir [])])"
    by (rule ensure_staging_tree_exact)
next
  assume cp: "create_project ev cfg ex sql f = (Inr info, s')"
  then have pc: "precheck ev cfg f = None"
    by (cases "precheck ev cfg f") (auto simp: create_project_def)
  from pc cp show "\<exists>es. lookup (fs_now s') [project_dir info] = Some (Dir es)
           \<and> map fst (filter (\<lambda>p. is_dir (snd p)) es)
               = [''pdfs'', ''ingested'', ''indexes'', ''drafts'', ''exports'', ''logs'']"
  proof (cases rule: create_project_cases)
    case (promoted es cs c d s1)
    then have "lookup (fs_now s') [project_dir info]
        = Some (workspace_node (cs @ [c]) d (manifest_dict cfg (project_id_of ev cfg) (now_iso ev)))"
      by auto
    then show ?thesis by (simp add: workspace_node_def is_dir_def)
  qed simp_all
qed

theorem create_project_subfolders_witness:
  "fst (create_project ex_env ex_cfg ex_expected ''sql'' None)
     = Inr \<lparr>project_id = JStr ''2026-11-04_abc'', project_dir = ''2026-11-04_abc'',
           manifest_path = [''2026-11-04_abc'', ''manifest.json''],
           database_path = [''2026-11-04_abc'', ''library.db''], status = ''created''\<rparr>
   \<and> (\<exists>es. lookup (fs_now (snd (create_project ex_env ex_cfg ex_expected ''sql'' None))) [''2026-11-04_abc'']
            = Some (Dir es)
          \<and> map fst (filter (\<lambda>p. is_dir (snd p)) es)
              = [''pdfs'', ''ingested'', ''indexes'', ''drafts'', ''exports'', ''logs''])"
proof -
  let ?run = "create_project ex_env ex_cfg ex_expected ''sql'' None"
  let ?info = "\<lparr>project_id = JStr ''2026-11-04_abc'', project_dir = ''2026-11-04_abc'',
           manifest_path = [''2026-11-04_abc'', ''manifest.json''],
           database_path = [''2026-11-04_abc'', ''library.db''], status = ''created''\<rparr>"
  have b: "fst ?run = Inr ?info" by code_simp
  have c: "?run = (Inr ?info, snd ?run)" using b by (cases ?run) simp
  from create_project_subfolders [of ex_env "''x''" "init_state None" "init_state None" ex_cfg ex_expected "''sql''" None ?info "snd ?run"] c
  have "\<exists>es. lookup (fs_now (snd ?run)) [project_dir ?info] = Some (Dir es)
          \<and> map fst (filter (\<lambda>p. is_dir (snd p)) es)
              = [''pdfs'', ''ingested'', ''indexes'', ''drafts'', ''exports'', ''logs'']"
    by blast
  then show ?thesis using b by simp
qed


section \<open>Creating, then opening\<close>
















section \<open>Rejected project names\<close>

text \<open>The pattern accepts the names the claim C3 means, and also each of them followed by
  one newline; a name it does not accept is refused before anything is touched.\<close>

lemma name_char_newline: "\<not> name_char (CHR 0x0A)"
  by (simp add: name_char_def)

lemma NAME_RE_match_iff:
  "NAME_RE_match s \<longleftrightarrow> spec_name_ok s \<or> (\<exists>w. s = w @ [CHR 0x0A] \<and> spec_name_ok w)"
proof (cases "s \<noteq> [] \<and> last s = CHR 0x0A")
  case True
  then have s: "s = butlast s @ [CHR 0x0A]" using append_butlast_last_id [of s] by simp
  have "\<not> list_all name_char (butlast s @ [CHR 0x0A])"
    using name_char_newline by simp
  then have "\<not> spec_name_ok s"
    using s by (simp add: spec_name_ok_def)
  moreover have "NAME_RE_match s \<longleftrightarrow> spec_name_ok (butlast s)"
    using True by (simp add: NAME_RE_match_def spec_name_ok_def Let_def)
  moreover have "(\<exists>w. s = w @ [CHR 0x0A] \<and> spec_name_ok w) \<longleftrightarrow> spec_name_ok (butlast s)"
  proof
    assume "\<exists>w. s = w @ [CHR 0x0A] \<and> spec_name_ok w"
    then obtain w where "s = w @ [CHR 0x0A]" "spec_name_ok w" by blast
    then show "spec_name_ok (butlast s)" by simp
  next
    assume "spec_name_ok (butlast s)"
    then show "\<exists>w. s = w @ [CHR 0x0A] \<and> spec_name_ok w" using s by blast
  qed
  ultimately show ?thesis by simp
next
  case False
  then have "\<not> (\<exists>w. s = w @ [CHR 0x0A] \<and> spec_name_ok w)" by auto
  moreover have "NAME_RE_match s \<longleftrightarrow> spec_name_ok s"
    using False by (auto simp: NAME_RE_match_def spec_name_ok_def Let_def)
  ultimately show ?thesis by blast
qed

lemma create_project_rejects_unmatched_name:
  assumes "project_name cfg = [] \<or> \<not> NAME_RE_match (project_name cfg)"
  shows "\<exists>e. create_project ev cfg ex sql f = (Inl e, init_state f)
           \<and> cls e = InvalidProjectNameError"
  using assms
  by (auto simp: create_project_def precheck_def validate_config_def)

text \<open>
  C3, at the name \<open>abc\<close> followed by a newline. The name is not made of lowercase
  letters, digits and underscores only; \<^verbatim>\<open>_validate_config\<close> accepts it, and
  \<^verbatim>\<open>create_project\<close> goes on to create the workspace whose directory name ends in the
  newline.
\<close>

theorem create_project_trailing_newline_accepted:
  "\<not> spec_name_ok (''abc'' @ [CHR 0x0A])
   \<and> validate_config (ex_cfg\<lparr>project_name := ''abc'' @ [CHR 0x0A]\<rparr>) = Inr ()
   \<and> fst (create_project ex_env (ex_cfg\<lparr>project_name := ''abc'' @ [CHR 0x0A]\<rparr>) ex_expected ''sql'' None)
       = Inr \<lparr>project_id = JStr (''2026-11-04_abc'' @ [CHR 0x0A]),
              project_dir = ''2026-11-04_abc'' @ [CHR 0x0A],
              manifest_path = [''2026-11-04_abc'' @ [CHR 0x0A], ''manifest.json''],
              database_path = [''2026-11-04_abc'' @ [CHR 0x0A], ''library.db''],
              status = ''created''\<rparr>
   \<and> lookup (fs_now (snd (create_project ex_env (ex_cfg\<lparr>project_name := ''abc'' @ [CHR 0x0A]\<rparr>)
                              ex_expected ''sql'' None)))
        [''2026-11-04_abc'' @ [CHR 0x0A], ''manifest.json''] \<noteq> None"
  by code_simp


end
